theory Spec2Isabelle
  imports Complex_Main "HOL-Library.Word"
begin

unbundle bit_operations_syntax

section \<open>Strings and base64\<close>

text \<open>
  A JavaScript string is modelled as a \<open>string\<close>: one \<open>char\<close> per code unit, restricted to
  the code units below 256.  A binary string (the argument of \<open>btoa\<close>, the result of
  \<open>atob\<close>) is a string of this kind by definition.
\<close>

text \<open>\<open>String.prototype.trim\<close>: the white space of ECMAScript below code unit 256.\<close>

definition is_space :: "char \<Rightarrow> bool" where
  "is_space c = ((of_char c :: nat) \<in> {9, 10, 11, 12, 13, 32, 160})"

definition trim :: "string \<Rightarrow> string" where
  "trim s = rev (dropWhile is_space (rev (dropWhile is_space s)))"

text \<open>\<open>String.prototype.startsWith\<close> and \<open>String.prototype.includes\<close>.\<close>

fun startsWith :: "string \<Rightarrow> string \<Rightarrow> bool" where
  "startsWith s [] = True"
| "startsWith [] (p # ps) = False"
| "startsWith (c # cs) (p # ps) = (c = p \<and> startsWith cs ps)"

fun includes_str :: "string \<Rightarrow> string \<Rightarrow> bool" where
  "includes_str [] p = (p = [])"
| "includes_str (c # cs) p = (startsWith (c # cs) p \<or> includes_str cs p)"

text \<open>\<open>String.prototype.charCodeAt\<close>: \<open>NaN\<close> (here \<open>None\<close>) outside the string.\<close>

definition charCodeAt :: "string \<Rightarrow> nat \<Rightarrow> nat option" where
  "charCodeAt s i = (if i < length s then Some (of_char (s ! i)) else None)"

text \<open>\<open>String.fromCharCode(...uint8Array)\<close>: the binary string of a byte array.\<close>

definition fromCharCode :: "8 word list \<Rightarrow> string" where
  "fromCharCode bytes = map (\<lambda>b. char_of (unat b)) bytes"

text \<open>
  \<open>btoa\<close> and \<open>atob\<close> are functions of the platform; they follow the HTML standard
  (base64 encoding of RFC 4648 with padding, and the forgiving base64 decoding).
\<close>

definition b64_alphabet :: string where
  "b64_alphabet = ''ABCDEFGHIJKLMNOPQRSTUVWXYZabcdefghijklmnopqrstuvwxyz0123456789+/''"

definition b64_char :: "nat \<Rightarrow> char" where
  "b64_char n = b64_alphabet ! (n mod 64)"

fun b64_groups :: "nat list \<Rightarrow> string" where
  "b64_groups (a # b # c # r) =
     b64_char (a div 4) # b64_char ((a mod 4) * 16 + b div 16) #
     b64_char ((b mod 16) * 4 + c div 64) # b64_char (c mod 64) # b64_groups r"
| "b64_groups [a, b] =
     [b64_char (a div 4), b64_char ((a mod 4) * 16 + b div 16),
      b64_char ((b mod 16) * 4), CHR ''='']"
| "b64_groups [a] =
     [b64_char (a div 4), b64_char ((a mod 4) * 16), CHR ''='', CHR ''='']"
| "b64_groups [] = []"

definition btoa :: "string \<Rightarrow> string" where
  "btoa s = b64_groups (map of_char s)"

text \<open>The value of a base64 character: its position in the alphabet.\<close>

definition b64_value :: "char \<Rightarrow> nat option" where
  "b64_value c =
     (let n = (of_char c :: nat) in
      if 65 \<le> n \<and> n \<le> 90 then Some (n - 65)
      else if 97 \<le> n \<and> n \<le> 122 then Some (n - 71)
      else if 48 \<le> n \<and> n \<le> 57 then Some (n + 4)
      else if n = 43 then Some 62
      else if n = 47 then Some 63
      else None)"

fun b64_values :: "string \<Rightarrow> nat list option" where
  "b64_values [] = Some []"
| "b64_values (c # cs) =
     (case b64_value c of
        None \<Rightarrow> None
      | Some v \<Rightarrow> (case b64_values cs of None \<Rightarrow> None | Some vs \<Rightarrow> Some (v # vs)))"

text \<open>
  Four sextets give three bytes; a rest of three sextets gives two bytes and a rest of two
  sextets one byte, their last bits discarded.  A rest of one sextet does not occur:
  \<open>atob\<close> rejects such a length before it decodes.
\<close>

fun b64_bytes :: "nat list \<Rightarrow> nat list" where
  "b64_bytes (a # b # c # d # r) =
     (a * 4 + b div 16) # ((b mod 16) * 16 + c div 4) # ((c mod 4) * 64 + d) # b64_bytes r"
| "b64_bytes [a, b, c] = [a * 4 + b div 16, (b mod 16) * 16 + c div 4]"
| "b64_bytes [a, b] = [a * 4 + b div 16]"
| "b64_bytes [a] = []"
| "b64_bytes [] = []"

definition is_ascii_whitespace :: "char \<Rightarrow> bool" where
  "is_ascii_whitespace c = ((of_char c :: nat) \<in> {9, 10, 12, 13, 32})"

definition strip_padding :: "string \<Rightarrow> string" where
  "strip_padding s =
     (if length s mod 4 = 0 \<and> s \<noteq> [] \<and> last s = CHR ''='' then
        (if butlast s \<noteq> [] \<and> last (butlast s) = CHR ''='' then butlast (butlast s)
         else butlast s)
      else s)"

text \<open>\<open>atob\<close> raises \<open>InvalidCharacterError\<close> where this model returns \<open>None\<close>.\<close>

definition atob :: "string \<Rightarrow> string option" where
  "atob s =
     (let d = strip_padding (filter (\<lambda>c. \<not> is_ascii_whitespace c) s) in
      if length d mod 4 = 1 then None
      else (case b64_values d of
              None \<Rightarrow> None
            | Some vs \<Rightarrow> Some (map char_of (b64_bytes vs))))"

text \<open>The sextets of a byte string, without padding.\<close>

fun sextets :: "nat list \<Rightarrow> nat list" where
  "sextets (a # b # c # r) =
     (a div 4) # ((a mod 4) * 16 + b div 16) # ((b mod 16) * 4 + c div 64) # (c mod 64) # sextets r"
| "sextets [a, b] = [a div 4, (a mod 4) * 16 + b div 16, (b mod 16) * 4]"
| "sextets [a] = [a div 4, (a mod 4) * 16]"
| "sextets [] = []"

section \<open>Exceptions\<close>

text \<open>A thrown value: an \<open>Error\<close> object with its message, or any other value.\<close>

datatype js_exn = JsError string | JsThrown

section \<open>Wire protocol\<close>

text \<open>
  Every message from the server to the client is a JSON object with the keys \<open>type\<close> and
  \<open>text\<close>, and \<open>audio\<close> on speech chunks only.
\<close>

record wire =
  mtype :: string
  mtext :: string
  maudio :: "string option"

definition status_msg :: "string \<Rightarrow> wire" where
  "status_msg t = \<lparr>mtype = ''status'', mtext = t, maudio = None\<rparr>"

definition text_msg :: "string \<Rightarrow> wire" where
  "text_msg t = \<lparr>mtype = ''text'', mtext = t, maudio = None\<rparr>"

definition audio_msg :: "string \<Rightarrow> string \<Rightarrow> wire" where
  "audio_msg t a = \<lparr>mtype = ''audio'', mtext = t, maudio = Some a\<rparr>"

definition error_msg :: "string \<Rightarrow> wire" where
  "error_msg t = \<lparr>mtype = ''error'', mtext = t, maudio = None\<rparr>"

datatype role = User | Assistant | System

record CoreMessage =
  role :: role
  content :: string

section \<open>The server: \<open>VoiceAIDurableObject\<close>\<close>

text \<open>
  The capabilities behind \<open>env.AI.run\<close> and \<open>streamText\<close> are external.  Each call is
  modelled by its outcome:
  \<^item> transcription yields an object whose \<open>text\<close> may be missing, or raises;
  \<^item> synthesis yields a string, an object with an \<open>audio\<close> field (possibly undefined),
    an \<open>ArrayBuffer\<close>, \<open>null\<close>, or raises;
  \<^item> the completion stream yields its chunks in order and then ends, normally or by raising.
  The synthesis outcome is looked up by the number of the sentence unit (its position in the
  order of production, the \<open>sequence\<close> of the specification) and its text.  Limits of the
  engine (the number of arguments that \<open>String.fromCharCode\<close> accepts) and failures of
  \<open>ws.send\<close> are not modelled, nor are two turns of one session that overlap in time.
\<close>

datatype whisper_run = WhisperResult "string option" | WhisperRaises js_exn

datatype tts_run =
    TtsString string
  | TtsObject "string option"
  | TtsBuffer "8 word list"
  | TtsNull
  | TtsRaises js_exn

record env =
  ai_whisper :: "8 word list \<Rightarrow> whisper_run"
  ai_chat :: "CoreMessage list \<Rightarrow> string list \<times> js_exn option"
  ai_tts :: "nat \<Rightarrow> string \<Rightarrow> tts_run"

text \<open>\<open>transcribeAudio\<close>: the body of the \<open>try\<close>, then the \<open>catch\<close> that returns \<open>null\<close>.\<close>

definition transcribeAudio_try :: "whisper_run \<Rightarrow> js_exn + string option" where
  "transcribeAudio_try r =
     (case r of
        WhisperRaises e \<Rightarrow> Inl e
      | WhisperResult t \<Rightarrow>
          Inr (case t of None \<Rightarrow> None | Some s \<Rightarrow> if s = [] then None else Some s))"

definition transcribeAudio :: "whisper_run \<Rightarrow> string option" where
  "transcribeAudio r = (case transcribeAudio_try r of Inl e \<Rightarrow> None | Inr v \<Rightarrow> v)"

text \<open>\<open>textToSpeech\<close>: the body of the \<open>try\<close>, then the \<open>catch\<close> that returns \<open>null\<close>.\<close>

definition textToSpeech_try :: "tts_run \<Rightarrow> js_exn + string option" where
  "textToSpeech_try r =
     (case r of
        TtsRaises e \<Rightarrow> Inl e
      | TtsString s \<Rightarrow> Inr (Some s)
      | TtsObject a \<Rightarrow> Inr a
      | TtsBuffer bytes \<Rightarrow> Inr (Some (btoa (fromCharCode bytes)))
      | TtsNull \<Rightarrow> Inr (Some (btoa (fromCharCode []))))"

definition textToSpeech :: "tts_run \<Rightarrow> string option" where
  "textToSpeech r = (case textToSpeech_try r of Inl e \<Rightarrow> None | Inr v \<Rightarrow> v)"

text \<open>JavaScript truthiness of a string or \<open>null\<close>/\<open>undefined\<close>.\<close>

definition truthy :: "string option \<Rightarrow> bool" where
  "truthy v = (case v of None \<Rightarrow> False | Some s \<Rightarrow> s \<noteq> [])"

subsection \<open>The queue of synthesis tasks (\<open>p-queue\<close>)\<close>

text \<open>
  \<open>PQueue\<close> is a library.  \<open>add\<close> appends the task to the waiting list and starts the head
  of that list when fewer than \<open>concurrency\<close> tasks are running; when a running task
  settles, the head of the waiting list is started; \<open>onIdle\<close> resolves once nothing waits
  and nothing runs.
\<close>

record 'a pqueue =
  concurrency :: nat
  waiting :: "'a list"
  running :: "'a list"

definition new_pqueue :: "nat \<Rightarrow> 'a pqueue" where
  "new_pqueue c = \<lparr>concurrency = c, waiting = [], running = []\<rparr>"

definition pq_start_next :: "'a pqueue \<Rightarrow> 'a pqueue" where
  "pq_start_next q =
     (if length (running q) < concurrency q then
        (case waiting q of
           [] \<Rightarrow> q
         | t # ts \<Rightarrow> q\<lparr>waiting := ts, running := running q @ [t]\<rparr>)
      else q)"

definition pq_add :: "'a \<Rightarrow> 'a pqueue \<Rightarrow> 'a pqueue" where
  "pq_add t q = pq_start_next (q\<lparr>waiting := waiting q @ [t]\<rparr>)"

definition pq_settle :: "nat \<Rightarrow> 'a pqueue \<Rightarrow> 'a pqueue" where
  "pq_settle i q = pq_start_next (q\<lparr>running := take i (running q) @ drop (Suc i) (running q)\<rparr>)"

definition pq_idle :: "'a pqueue \<Rightarrow> bool" where
  "pq_idle q = (waiting q = [] \<and> running q = [])"

subsection \<open>One turn\<close>

text \<open>
  The state of the durable object during one turn: the turn history, the frames passed to
  \<open>ws.send\<close> (oldest first), and the locals of \<open>generateAndSpeakResponse\<close>.
  \<open>unitCount\<close> counts the sentence units produced so far; the code does not store it, the
  model uses it to name the synthesis call of each unit.
\<close>

datatype phase = Streaming | Draining | Returned | Thrown

record server =
  msgHistory :: "CoreMessage list"
  ws :: "wire list"
  phase :: phase
  textStream :: "string list"
  streamEnd :: "js_exn option"
  fullResponse :: string
  unitCount :: nat
  ttsQueue :: "(nat \<times> string) pqueue"

definition send :: "wire \<Rightarrow> server \<Rightarrow> server" where
  "send m s = s\<lparr>ws := ws s @ [m]\<rparr>"

text \<open>Lines 161 to 167, then line 99: the assistant turn, then the \<open>Idle\<close> status.\<close>

definition finish_turn :: "server \<Rightarrow> server" where
  "finish_turn s =
     send (status_msg ''Idle'')
       (s\<lparr>msgHistory := msgHistory s @ [\<lparr>role = Assistant, content = fullResponse s\<rparr>],
          phase := Returned\<rparr>)"

text \<open>\<open>await ttsQueue.onIdle()\<close>: the turn goes on as soon as the queue is idle.\<close>

definition await_idle :: "server \<Rightarrow> server" where
  "await_idle s = (if pq_idle (ttsQueue s) then finish_turn s else s\<lparr>phase := Draining\<rparr>)"

text \<open>
  The \<open>catch\<close> of \<open>generateAndSpeakResponse\<close> throws the error again, \<open>handleAudioInput\<close>
  lets it pass, and the \<open>catch\<close> of the message listener answers with an error frame.
\<close>

definition error_text :: "js_exn \<Rightarrow> string" where
  "error_text e = (case e of JsError m \<Rightarrow> m | JsThrown \<Rightarrow> ''Unknown error'')"

definition stream_raised :: "js_exn \<Rightarrow> server \<Rightarrow> server" where
  "stream_raised e s = send (error_msg (error_text e)) (s\<lparr>phase := Thrown\<rparr>)"

text \<open>One iteration of the \<open>for await\<close> loop, lines 133 to 155.\<close>

definition loop_body :: "string \<Rightarrow> server \<Rightarrow> server" where
  "loop_body chunk s =
     (let sentence = trim chunk in
      if sentence = [] then s
      else
        let s1 = s\<lparr>fullResponse :=
                     fullResponse s @ (if fullResponse s \<noteq> [] then '' '' else '''') @ sentence\<rparr>;
            s2 = send (status_msg ''Speaking...'') s1
        in s2\<lparr>unitCount := Suc (unitCount s2),
               ttsQueue := pq_add (unitCount s2, sentence) (ttsQueue s2)\<rparr>)"

text \<open>The queued task, lines 141 to 154, from the moment its synthesis call settles.\<close>

definition tts_task :: "env \<Rightarrow> nat \<times> string \<Rightarrow> server \<Rightarrow> server" where
  "tts_task e t s =
     (case textToSpeech (ai_tts e (fst t) (snd t)) of
        None \<Rightarrow> s
      | Some audio \<Rightarrow> if truthy (Some audio) then send (audio_msg (snd t) audio) s else s)"

text \<open>
  The events of a turn: the completion stream delivers its next item (a chunk, its end or
  its failure), or the synthesis call of the \<open>i\<close>-th running task settles.  An event that
  is not enabled gives \<open>None\<close>.
\<close>

datatype event = StreamNext | TtsSettles nat

definition step :: "env \<Rightarrow> event \<Rightarrow> server \<Rightarrow> server option" where
  "step e ev s =
     (case ev of
        StreamNext \<Rightarrow>
          (if phase s \<noteq> Streaming then None
           else (case textStream s of
                   c # cs \<Rightarrow> Some (loop_body c (s\<lparr>textStream := cs\<rparr>))
                 | [] \<Rightarrow> (case streamEnd s of
                            None \<Rightarrow> Some (await_idle s)
                          | Some x \<Rightarrow> Some (stream_raised x s))))
      | TtsSettles i \<Rightarrow>
          (if i < length (running (ttsQueue s)) then
             let s1 = tts_task e (running (ttsQueue s) ! i) s;
                 s2 = s1\<lparr>ttsQueue := pq_settle i (ttsQueue s1)\<rparr>
             in Some (if phase s2 = Draining \<and> pq_idle (ttsQueue s2) then finish_turn s2 else s2)
           else None))"

fun exec :: "env \<Rightarrow> event list \<Rightarrow> server \<Rightarrow> server option" where
  "exec e [] s = Some s"
| "exec e (ev # evs) s = (case step e ev s of None \<Rightarrow> None | Some s' \<Rightarrow> exec e evs s')"

text \<open>
  \<open>generateAndSpeakResponse\<close> up to its first \<open>await\<close>: a fresh queue of concurrency 1 and
  the completion stream of the present history.
\<close>

definition generateAndSpeakResponse :: "env \<Rightarrow> server \<Rightarrow> server" where
  "generateAndSpeakResponse e s =
     s\<lparr>phase := Streaming,
       textStream := fst (ai_chat e (msgHistory s)),
       streamEnd := snd (ai_chat e (msgHistory s)),
       fullResponse := [],
       unitCount := 0,
       ttsQueue := new_pqueue 1\<rparr>"

text \<open>
  \<open>handleAudioInput\<close>, lines 77 to 97.  Without a transcription the turn is over at once;
  otherwise the events of the turn follow (\<open>exec\<close>).
\<close>

definition handleAudioInput :: "env \<Rightarrow> server \<Rightarrow> 8 word list \<Rightarrow> server" where
  "handleAudioInput e s userAudioData =
     (let s1 = send (status_msg ''Processing....'') s in
      case transcribeAudio (ai_whisper e userAudioData) of
        None \<Rightarrow> (send (status_msg ''Idle'') s1)\<lparr>phase := Returned\<rparr>
      | Some transcription \<Rightarrow>
          let s2 = send (text_msg transcription) s1;
              s3 = s2\<lparr>msgHistory := msgHistory s2 @ [\<lparr>role = User, content = transcription\<rparr>]\<rparr>
          in generateAndSpeakResponse e s3)"



subsection \<open>Notions used to state the properties of a turn\<close>

text \<open>
  The sentence units of a completion stream, numbered in the order of production: the
  chunks that are not empty after \<open>trim\<close>, as the loop of \<open>generateAndSpeakResponse\<close>
  selects them.
\<close>

fun units_from :: "nat \<Rightarrow> string list \<Rightarrow> (nat \<times> string) list" where
  "units_from k [] = []"
| "units_from k (c # cs) =
     (if trim c = [] then units_from k cs else (k, trim c) # units_from (Suc k) cs)"

text \<open>The speech chunk of a unit: one audio frame, or none when synthesis gave no audio.\<close>

definition frames_of :: "env \<Rightarrow> nat \<times> string \<Rightarrow> wire list" where
  "frames_of e u =
     (case textToSpeech (ai_tts e (fst u) (snd u)) of
        None \<Rightarrow> []
      | Some a \<Rightarrow> if a = [] then [] else [audio_msg (snd u) a])"

definition audio_frames :: "wire list \<Rightarrow> wire list" where
  "audio_frames ms = filter (\<lambda>m. mtype m = ''audio'') ms"

definition error_frames :: "wire list \<Rightarrow> wire list" where
  "error_frames ms = filter (\<lambda>m. mtype m = ''error'') ms"



text \<open>The units whose task has not settled yet: running, waiting, or still to come.\<close>

definition pending_units :: "server \<Rightarrow> (nat \<times> string) list" where
  "pending_units s =
     running (ttsQueue s) @ waiting (ttsQueue s) @ units_from (unitCount s) (textStream s)"

definition queue_ok :: "server \<Rightarrow> bool" where
  "queue_ok s =
     (concurrency (ttsQueue s) = 1 \<and> length (running (ttsQueue s)) \<le> 1 \<and>
      (running (ttsQueue s) = [] \<longrightarrow> waiting (ttsQueue s) = []))"

definition progress_inv :: "env \<Rightarrow> server \<Rightarrow> server \<Rightarrow> bool" where
  "progress_inv e s0 s =
     (\<exists>settled. pending_units s0 = settled @ pending_units s \<and>
        audio_frames (ws s) = audio_frames (ws s0) @ concat (map (frames_of e) settled))"

text \<open>What the loop adds to \<open>fullResponse\<close> over further sentences.\<close>

fun join_more :: "string \<Rightarrow> string list \<Rightarrow> string" where
  "join_more acc [] = acc"
| "join_more acc (x # xs) = join_more (acc @ (if acc \<noteq> [] then '' '' else []) @ x) xs"

text \<open>The specification's wording: texts concatenated with single-space separators.\<close>

fun join_space :: "string list \<Rightarrow> string" where
  "join_space [] = []"
| "join_space [x] = x"
| "join_space (x # y # r) = x @ '' '' @ join_space (y # r)"

definition response_total :: "server \<Rightarrow> string" where
  "response_total s = join_more (fullResponse s) (map snd (units_from (unitCount s) (textStream s)))"

definition phase_ok :: "server \<Rightarrow> bool" where
  "phase_ok s =
     ((phase s = Draining \<longrightarrow> textStream s = [] \<and> streamEnd s = None \<and> \<not> pq_idle (ttsQueue s)) \<and>
      (phase s = Returned \<longrightarrow> textStream s = [] \<and> streamEnd s = None \<and> pq_idle (ttsQueue s)) \<and>
      (phase s = Thrown \<longrightarrow> textStream s = [] \<and> streamEnd s \<noteq> None))"

text \<open>The facts that relate a state of the turn to the state the turn started in.\<close>

definition turn_rel :: "server \<Rightarrow> server \<Rightarrow> bool" where
  "turn_rel s0 s =
     (phase_ok s \<and> streamEnd s = streamEnd s0 \<and> response_total s = response_total s0 \<and>
      msgHistory s =
        msgHistory s0 @
        (if phase s = Returned then [\<lparr>role = Assistant, content = fullResponse s\<rparr>] else []) \<and>
      (phase s = Returned \<longrightarrow> ws s \<noteq> [] \<and> last (ws s) = status_msg ''Idle'') \<and>
      error_frames (ws s) =
        error_frames (ws s0) @
        (case streamEnd s of
           None \<Rightarrow> []
         | Some x \<Rightarrow> if phase s = Thrown then [error_msg (error_text x)] else []))"

text \<open>
  The turn is over when the completion stream has ended (or failed) and the queue of
  synthesis tasks is idle.
\<close>

definition turn_over :: "server \<Rightarrow> bool" where
  "turn_over s = (phase s \<noteq> Streaming \<and> pq_idle (ttsQueue s))"

definition turn_measure :: "server \<Rightarrow> nat" where
  "turn_measure s =
     2 * (if phase s = Streaming then Suc (length (textStream s)) else 0) +
     length (waiting (ttsQueue s)) + length (running (ttsQueue s))"

section \<open>The client: \<open>utils.ts\<close>\<close>

text \<open>
  \<open>sniffAudioMime\<close>: the body of the \<open>try\<close>, then the \<open>catch\<close> that returns the default.
  \<open>NaN & 0xe0\<close> is 0, so a missing second character never matches.
\<close>

definition sniffAudioMime_try :: "string \<Rightarrow> js_exn + string" where
  "sniffAudioMime_try base64 =
     (if base64 = [] \<or> length base64 < 20 then Inr ''audio/wav''
      else
        (case atob (take 20 base64) of
           None \<Rightarrow> Inl (JsError ''InvalidCharacterError'')
         | Some decoded \<Rightarrow>
             if startsWith decoded ''RIFF'' \<and> includes_str decoded ''WAVE'' then Inr ''audio/wav''
             else if charCodeAt decoded 0 = Some 255 \<and>
                     (case charCodeAt decoded 1 of None \<Rightarrow> False | Some c \<Rightarrow> c AND 224 = 224)
             then Inr ''audio/mpeg''
             else Inr ''audio/wav''))"

definition sniffAudioMime :: "string \<Rightarrow> string" where
  "sniffAudioMime base64 =
     (case sniffAudioMime_try base64 of Inl e \<Rightarrow> ''audio/wav'' | Inr mime \<Rightarrow> mime)"

text \<open>
  \<open>b64ToBlob\<close>: the blob is its bytes (as a binary string) and its media type; any failure
  is thrown again as an \<open>Error\<close>.
\<close>

definition b64ToBlob :: "string \<Rightarrow> js_exn + string \<times> string" where
  "b64ToBlob base64 =
     (let cleanBase64 = filter (\<lambda>c. \<not> is_space c) base64 in
      if base64 = [] \<or> cleanBase64 = [] then Inl (JsError ''Failed to decode base64 audio'')
      else (case atob cleanBase64 of
              None \<Rightarrow> Inl (JsError ''Failed to decode base64 audio'')
            | Some bytes \<Rightarrow> Inr (bytes, sniffAudioMime cleanBase64)))"

section \<open>The client: \<open>useVoiceChat.ts\<close>\<close>

text \<open>
  The state of the hook: the transcript, the flags and the status, the playback queue
  (\<open>audioQueueRef\<close>, whose items have an \<open>audio\<close> field that is undefined when the frame
  had none) and \<open>isPlayingRef\<close>.  The browser's side is part of the state as well: the
  audio elements created so far, each named by the number of its object URL, and the
  object URLs that were created and not revoked.
\<close>

type_synonym Message = CoreMessage

datatype element = Starting | Playing | Failing | Finished

record client =
  messages :: "Message list"
  isListening :: bool
  isSpeaking :: bool
  status :: string
  audioQueue :: "(string option \<times> string) list"
  isPlaying :: bool
  elements :: "element list"
  objectUrls :: "nat list"

text \<open>
  \<open>playNextInQueue\<close>, lines 148 to 194, up to \<open>await audioElement.play()\<close>.  A missing
  or empty \<open>audio\<close> and a failure of \<open>b64ToBlob\<close> throw into the \<open>catch\<close>, which goes
  on with the next item at once.
\<close>

function playNextInQueue :: "client \<Rightarrow> client" where
  "playNextInQueue s =
     (if isPlaying s \<or> audioQueue s = [] then s
      else
        let s1 = s\<lparr>isPlaying := True, isSpeaking := True, audioQueue := tl (audioQueue s)\<rparr>;
            caught = s1\<lparr>isPlaying := False, isSpeaking := False\<rparr>
        in (case fst (hd (audioQueue s)) of
              None \<Rightarrow> playNextInQueue caught
            | Some audio \<Rightarrow>
                if audio = [] then playNextInQueue caught
                else (case b64ToBlob audio of
                        Inl x \<Rightarrow> playNextInQueue caught
                      | Inr blob \<Rightarrow>
                          s1\<lparr>objectUrls := objectUrls s1 @ [length (elements s1)],
                             elements := elements s1 @ [Starting]\<rparr>)))"
  by pat_completeness auto
termination
  by (relation "measure (\<lambda>s. length (audioQueue s))") (auto simp: neq_Nil_conv)

declare playNextInQueue.simps [simp del]

text \<open>\<open>revokeUrl\<close>, lines 169 to 174, of the element with object URL \<open>url\<close>.\<close>

definition revokeUrl :: "nat \<Rightarrow> client \<Rightarrow> client" where
  "revokeUrl url s =
     playNextInQueue
       (s\<lparr>objectUrls := filter (\<lambda>u. u \<noteq> url) (objectUrls s), isPlaying := False,
          isSpeaking := False\<rparr>)"

text \<open>The \<open>catch\<close> of \<open>playNextInQueue\<close>, lines 188 to 193, after \<open>play()\<close> was rejected.\<close>

definition play_rejected :: "client \<Rightarrow> client" where
  "play_rejected s = playNextInQueue (s\<lparr>isPlaying := False, isSpeaking := False\<rparr>)"

text \<open>
  \<open>ws.onmessage\<close>, lines 46 to 104, on the parsed frame.  The case \<open>text\<close> has no
  \<open>break\<close>: control falls through into the case \<open>audio\<close>.
\<close>

definition case_audio :: "wire \<Rightarrow> client \<Rightarrow> client" where
  "case_audio data s =
     playNextInQueue
       (s\<lparr>audioQueue := audioQueue s @ [(maudio data, mtext data)],
          messages :=
            (if messages s \<noteq> [] \<and> role (last (messages s)) = Assistant
             then butlast (messages s) @
                  [(last (messages s))\<lparr>content := content (last (messages s)) @ '' '' @ mtext data\<rparr>]
             else messages s @ [\<lparr>role = Assistant, content = mtext data\<rparr>])\<rparr>)"

definition case_status :: "wire \<Rightarrow> client \<Rightarrow> client" where
  "case_status data s =
     (let s1 = s\<lparr>status := mtext data\<rparr> in
      if mtext data = ''ready'' then s1\<lparr>status := ''ready''\<rparr>
      else if mtext data = ''Speaking...'' then s1\<lparr>isSpeaking := True\<rparr>
      else if mtext data = ''Idle'' then s1\<lparr>isListening := False\<rparr>
      else s1)"

definition onmessage :: "wire \<Rightarrow> client \<Rightarrow> client" where
  "onmessage data s =
     (if mtype data = ''status'' then case_status data s
      else if mtype data = ''text'' then
        case_audio data (s\<lparr>messages := messages s @ [\<lparr>role = User, content = mtext data\<rparr>]\<rparr>)
      else if mtype data = ''audio'' then case_audio data s
      else if mtype data = ''error'' then s\<lparr>status := ''Error '' @ mtext data\<rparr>
      else s)"

text \<open>
  The events of the client.  A frame arrives (\<open>None\<close> when \<open>JSON.parse\<close> raises, which
  the handler catches); the promise of \<open>play()\<close> of an element resolves or is rejected;
  an element fires \<open>ended\<close> or \<open>error\<close>.  An element that fires \<open>error\<close> before its
  \<open>play()\<close> has settled has that promise rejected afterwards.  An event that the element
  cannot produce in its present state gives \<open>None\<close>.  An element is audible while it is
  \<open>Playing\<close>.
\<close>

datatype cevent =
    WsMessage "wire option"
  | PlayResolved nat
  | PlayRejected nat
  | AudioEnded nat
  | AudioError nat

definition set_element :: "nat \<Rightarrow> element \<Rightarrow> client \<Rightarrow> client" where
  "set_element i el s = s\<lparr>elements := (elements s)[i := el]\<rparr>"

definition element_is :: "client \<Rightarrow> nat \<Rightarrow> element \<Rightarrow> bool" where
  "element_is s i el = (i < length (elements s) \<and> elements s ! i = el)"

definition cstep :: "cevent \<Rightarrow> client \<Rightarrow> client option" where
  "cstep ev s =
     (case ev of
        WsMessage None \<Rightarrow> Some s
      | WsMessage (Some data) \<Rightarrow> Some (onmessage data s)
      | PlayResolved i \<Rightarrow>
          if element_is s i Starting then Some (set_element i Playing s) else None
      | PlayRejected i \<Rightarrow>
          if element_is s i Starting \<or> element_is s i Failing
          then Some (play_rejected (set_element i Finished s)) else None
      | AudioEnded i \<Rightarrow>
          if element_is s i Playing then Some (revokeUrl i (set_element i Finished s)) else None
      | AudioError i \<Rightarrow>
          if element_is s i Playing then Some (revokeUrl i (set_element i Finished s))
          else if element_is s i Starting then Some (revokeUrl i (set_element i Failing s))
          else None)"

fun crun :: "cevent list \<Rightarrow> client \<Rightarrow> client option" where
  "crun [] s = Some s"
| "crun (ev # evs) s = (case cstep ev s of None \<Rightarrow> None | Some s' \<Rightarrow> crun evs s')"

definition audible :: "client \<Rightarrow> nat list" where
  "audible s = filter (\<lambda>i. elements s ! i = Playing) [0..<length (elements s)]"

definition new_client :: client where
  "new_client =
     \<lparr>messages = [], isListening = False, isSpeaking = False, status = ''Disconnected'',
      audioQueue = [], isPlaying = False, elements = [], objectUrls = []\<rparr>"

section \<open>The WAV encoder of \<open>utils.ts\<close>\<close>

text \<open>
  An element of a \<open>Float32Array\<close>, read as a JavaScript number: a finite value, an
  infinity or NaN.  Finite values are modelled as real numbers; the product of a clamped
  sample and \<open>0x7fff\<close> or \<open>0x8000\<close> is exact in double precision (24 bits times 16 bits),
  so real arithmetic computes what the code computes.  The sample rate is a natural number.
\<close>

datatype number = Num real | PosInf | NegInf | NaN

text \<open>
  \<open>Math.min(c, x)\<close> and \<open>Math.max(c, x)\<close> for a finite \<open>c\<close>, the comparison \<open>x < 0\<close> and
  the product \<open>x * c\<close> for a finite positive \<open>c\<close>.  NaN is contagious and compares false.
\<close>

definition math_min :: "real \<Rightarrow> number \<Rightarrow> number" where
  "math_min c x =
     (case x of Num r \<Rightarrow> Num (min c r) | PosInf \<Rightarrow> Num c | NegInf \<Rightarrow> NegInf | NaN \<Rightarrow> NaN)"

definition math_max :: "real \<Rightarrow> number \<Rightarrow> number" where
  "math_max c x =
     (case x of Num r \<Rightarrow> Num (max c r) | PosInf \<Rightarrow> PosInf | NegInf \<Rightarrow> Num c | NaN \<Rightarrow> NaN)"

definition less_zero :: "number \<Rightarrow> bool" where
  "less_zero x = (case x of Num r \<Rightarrow> r < 0 | PosInf \<Rightarrow> False | NegInf \<Rightarrow> True | NaN \<Rightarrow> False)"

definition times :: "number \<Rightarrow> real \<Rightarrow> number" where
  "times x c = (case x of Num r \<Rightarrow> Num (r * c) | PosInf \<Rightarrow> PosInf | NegInf \<Rightarrow> NegInf | NaN \<Rightarrow> NaN)"

text \<open>
  A \<open>DataView\<close> setter converts its argument to the integer type of the field: NaN and
  the infinities become 0, a finite value is truncated towards zero and its low bits are
  kept.  The bytes are written in little-endian order.
\<close>

definition truncate_real :: "real \<Rightarrow> int" where
  "truncate_real x = (if x < 0 then \<lceil>x\<rceil> else \<lfloor>x\<rfloor>)"

definition toInt16 :: "number \<Rightarrow> 16 word" where
  "toInt16 v = (case v of Num r \<Rightarrow> of_int (truncate_real r) | PosInf \<Rightarrow> 0 | NegInf \<Rightarrow> 0 | NaN \<Rightarrow> 0)"

definition writeString :: "string \<Rightarrow> 8 word list" where
  "writeString str = map (\<lambda>c. of_nat (of_char c)) str"

definition setUint32 :: "nat \<Rightarrow> 8 word list" where
  "setUint32 v =
     (let w = (of_nat v :: 32 word)
      in [ucast w, ucast (drop_bit 8 w), ucast (drop_bit 16 w), ucast (drop_bit 24 w)])"

definition setUint16 :: "nat \<Rightarrow> 8 word list" where
  "setUint16 v = (let w = (of_nat v :: 16 word) in [ucast w, ucast (drop_bit 8 w)])"

definition setInt16 :: "number \<Rightarrow> 8 word list" where
  "setInt16 v = (let w = toInt16 v in [ucast w, ucast (drop_bit 8 w)])"

text \<open>Lines 110 and 111: the clamped sample and its scaling.\<close>

definition pcmSample :: "number \<Rightarrow> number" where
  "pcmSample x =
     (let sample = math_max (- 1) (math_min 1 x)
      in if less_zero sample then times sample 32768 else times sample 32767)"

definition wav_header :: "nat \<Rightarrow> nat \<Rightarrow> 8 word list" where
  "wav_header count sampleRate =
     (let numChannels = 1; bitsPerSample = 16; bytesPerSample = bitsPerSample div 8;
          blockAlign = numChannels * bytesPerSample; byteRate = sampleRate * blockAlign;
          dataSize = count * bytesPerSample; bufferSize = 44 + dataSize
      in writeString ''RIFF'' @ setUint32 (bufferSize - 8) @ writeString ''WAVE'' @
         writeString ''fmt '' @ setUint32 16 @ setUint16 1 @ setUint16 numChannels @
         setUint32 sampleRate @ setUint32 byteRate @ setUint16 blockAlign @
         setUint16 bitsPerSample @ writeString ''data'' @ setUint32 dataSize)"

definition encodeWavPCM16 :: "number list \<Rightarrow> nat \<Rightarrow> 8 word list" where
  "encodeWavPCM16 samples sampleRate =
     wav_header (length samples) sampleRate @ concat (map (\<lambda>x. setInt16 (pcmSample x)) samples)"

subsection \<open>Reading the container\<close>

text \<open>
  Modelled from the spec: the repository has the encoder only.  The reader follows the
  layout of section 4.5 of the specification: a 44-byte canonical header (\<open>RIFF\<close>, the
  size, \<open>WAVE\<close>, the \<open>fmt\<close> subchunk with its six fields, \<open>data\<close> and its size), then
  little-endian signed 16-bit samples.  It gives the fields of the header and the samples
  as integers, or nothing when one of the four tags is not in its place.
\<close>

record wav =
  riffSize :: "32 word"
  fmtSize :: "32 word"
  audioFormat :: "16 word"
  channelCount :: "16 word"
  rate :: "32 word"
  bytesPerSecond :: "32 word"
  frameSize :: "16 word"
  sampleBits :: "16 word"
  dataBytes :: "32 word"
  pcm :: "int list"

definition slice :: "nat \<Rightarrow> nat \<Rightarrow> 'a list \<Rightarrow> 'a list" where
  "slice off n xs = take n (drop off xs)"

definition getUint16 :: "8 word list \<Rightarrow> 16 word" where
  "getUint16 bs = (case bs of [b0, b1] \<Rightarrow> word_cat b1 b0 | _ \<Rightarrow> 0)"

definition getUint32 :: "8 word list \<Rightarrow> 32 word" where
  "getUint32 bs =
     (case bs of
        [b0, b1, b2, b3] \<Rightarrow> word_cat b3 (word_cat b2 (word_cat b1 b0 :: 16 word) :: 24 word)
      | _ \<Rightarrow> 0)"

fun getInt16s :: "8 word list \<Rightarrow> int list" where
  "getInt16s (lo # hi # r) = sint (word_cat hi lo :: 16 word) # getInt16s r"
| "getInt16s [b] = []"
| "getInt16s [] = []"

definition parseWav :: "8 word list \<Rightarrow> wav option" where
  "parseWav bytes =
     (if slice 0 4 bytes = writeString ''RIFF'' \<and> slice 8 4 bytes = writeString ''WAVE'' \<and>
         slice 12 4 bytes = writeString ''fmt '' \<and> slice 36 4 bytes = writeString ''data''
      then Some \<lparr>riffSize = getUint32 (slice 4 4 bytes), fmtSize = getUint32 (slice 16 4 bytes),
                 audioFormat = getUint16 (slice 20 2 bytes),
                 channelCount = getUint16 (slice 22 2 bytes),
                 rate = getUint32 (slice 24 4 bytes),
                 bytesPerSecond = getUint32 (slice 28 4 bytes),
                 frameSize = getUint16 (slice 32 2 bytes),
                 sampleBits = getUint16 (slice 34 2 bytes),
                 dataBytes = getUint32 (slice 40 4 bytes),
                 pcm = getInt16s (drop 44 bytes)\<rparr>
      else None)"

text \<open>
  Modelled from the spec: the specification names no scaling for the decoder.  Two are
  stated here.  \<open>dequantize\<close> undoes the scaling of the encoder: a negative value is
  divided by 32768, any other value by 32767.  \<open>dequantize_32768\<close> is the usual reading of
  16-bit PCM: every value is divided by 32768.
\<close>

definition dequantize :: "int \<Rightarrow> real" where
  "dequantize v = (if v < 0 then real_of_int v / 32768 else real_of_int v / 32767)"

definition dequantize_32768 :: "int \<Rightarrow> real" where
  "dequantize_32768 v = real_of_int v / 32768"

text \<open>
  A decoded value reproduces a number to within one quantization step when the number is
  finite and their distance is at most 1/32767; nothing is within a distance of NaN.
\<close>

definition reproduces :: "real \<Rightarrow> number \<Rightarrow> bool" where
  "reproduces d x =
     (case x of Num r \<Rightarrow> \<bar>d - r\<bar> \<le> 1 / 32767 | PosInf \<Rightarrow> False | NegInf \<Rightarrow> False
      | NaN \<Rightarrow> False)"

subsection \<open>Example data\<close>

text \<open>
  An environment with a given completion stream and given synthesis outcomes, whose
  transcription is \<open>hi\<close> for any frame that is not empty, and a session right after the
  connection was accepted.
\<close>

definition demo_env :: "string list \<times> js_exn option \<Rightarrow> (nat \<Rightarrow> tts_run) \<Rightarrow> env" where
  "demo_env stream tts =
     \<lparr>ai_whisper = (\<lambda>a. if a = [] then WhisperResult None else WhisperResult (Some ''hi'')),
      ai_chat = (\<lambda>h. stream),
      ai_tts = (\<lambda>k t. tts k)\<rparr>"

definition demo_server :: server where
  "demo_server =
     \<lparr>msgHistory = [], ws = [status_msg ''ready''], phase = Returned, textStream = [],
      streamEnd = None, fullResponse = [], unitCount = 0, ttsQueue = new_pqueue 1\<rparr>"

definition demo_chunks :: "string list" where
  "demo_chunks = [''Hello there. '', ''   '', '' How can I help?'', ''Bye.'']"

definition demo_tts :: "nat \<Rightarrow> tts_run" where
  "demo_tts k =
     (if k = 0 then TtsString ''QQ==''
      else if k = 1 then TtsRaises (JsError ''synthesis failed'')
      else TtsObject (Some ''Qg==''))"

text \<open>Both units of the stream are queued before the first synthesis call settles.\<close>

definition demo_sched :: "event list" where
  "demo_sched =
     [StreamNext, StreamNext, StreamNext, TtsSettles 0, StreamNext, TtsSettles 0, StreamNext,
      TtsSettles 0]"


section \<open>Lemmas about one turn\<close>

lemma audio_frames_simps [simp]:
  "audio_frames [] = []"
  "audio_frames (xs @ ys) = audio_frames xs @ audio_frames ys"
  "audio_frames [status_msg t] = []"
  "audio_frames [text_msg t] = []"
  "audio_frames [error_msg t] = []"
  "audio_frames [audio_msg t a] = [audio_msg t a]"
  by (simp_all add: audio_frames_def status_msg_def text_msg_def error_msg_def audio_msg_def)

lemma tts_task_ws: "ws (tts_task e u s) = ws s @ frames_of e u"
  by (simp add: tts_task_def frames_of_def truthy_def send_def split: option.splits)

lemma tts_task_other [simp]:
  "msgHistory (tts_task e u s) = msgHistory s"
  "phase (tts_task e u s) = phase s"
  "textStream (tts_task e u s) = textStream s"
  "streamEnd (tts_task e u s) = streamEnd s"
  "fullResponse (tts_task e u s) = fullResponse s"
  "unitCount (tts_task e u s) = unitCount s"
  "ttsQueue (tts_task e u s) = ttsQueue s"
  by (simp_all add: tts_task_def send_def split: option.splits)

lemma step_queue_ok:
  "queue_ok s \<Longrightarrow> step e ev s = Some s' \<Longrightarrow> queue_ok s'"
  apply (cases ev)
  apply (auto simp: step_def queue_ok_def loop_body_def Let_def await_idle_def finish_turn_def send_def
     stream_raised_def pq_add_def pq_start_next_def pq_settle_def pq_idle_def
     split: if_splits list.splits option.splits)
  done

lemma audio_frames_frames_of [simp]: "audio_frames (frames_of e u) = frames_of e u"
  by (simp add: frames_of_def split: option.splits)

lemma progress_inv_refl: "progress_inv e s s"
  by (simp add: progress_inv_def)

lemma step_pending:
  assumes "queue_ok s" and "step e ev s = Some s'"
  shows "\<exists>us. pending_units s = us @ pending_units s' \<and>
           audio_frames (ws s') = audio_frames (ws s) @ concat (map (frames_of e) us)"
proof (cases ev)
  case StreamNext
  with assms have "pending_units s = [] @ pending_units s' \<and> audio_frames (ws s') = audio_frames (ws s)"
    by (auto simp: step_def queue_ok_def loop_body_def Let_def await_idle_def finish_turn_def
          send_def stream_raised_def pq_add_def pq_start_next_def pq_idle_def
          pending_units_def split: if_splits list.splits option.splits)
  then show ?thesis by force
next
  case (TtsSettles i)
  with assms have i: "i < length (running (ttsQueue s))"
    by (simp add: step_def split: if_splits)
  with assms(1) obtain u where u: "running (ttsQueue s) = [u]" and i0: "i = 0"
    by (cases "running (ttsQueue s)") (auto simp: queue_ok_def)
  with assms TtsSettles
  have "pending_units s = [u] @ pending_units s' \<and>
        audio_frames (ws s') = audio_frames (ws s) @ concat (map (frames_of e) [u])"
    by (auto simp: step_def Let_def finish_turn_def send_def pq_settle_def pq_start_next_def
          pq_idle_def pending_units_def tts_task_ws queue_ok_def
          split: if_splits list.splits)
  then show ?thesis by blast
qed

lemma step_progress_inv:
  assumes "queue_ok s" and "progress_inv e s0 s" and "step e ev s = Some s'"
  shows "progress_inv e s0 s'"
proof -
  from assms(2) obtain d where d: "pending_units s0 = d @ pending_units s"
    "audio_frames (ws s) = audio_frames (ws s0) @ concat (map (frames_of e) d)"
    by (auto simp: progress_inv_def)
  from step_pending [OF assms(1,3)] obtain us where us: "pending_units s = us @ pending_units s'"
    "audio_frames (ws s') = audio_frames (ws s) @ concat (map (frames_of e) us)"
    by blast
  from d us have "pending_units s0 = (d @ us) @ pending_units s' \<and>
     audio_frames (ws s') = audio_frames (ws s0) @ concat (map (frames_of e) (d @ us))"
    by simp
  then show ?thesis unfolding progress_inv_def by blast
qed

lemma error_frames_simps [simp]:
  "error_frames [] = []"
  "error_frames (xs @ ys) = error_frames xs @ error_frames ys"
  "error_frames [status_msg t] = []"
  "error_frames [text_msg t] = []"
  "error_frames [error_msg t] = [error_msg t]"
  "error_frames [audio_msg t a] = []"
  by (simp_all add: error_frames_def status_msg_def text_msg_def error_msg_def audio_msg_def)

lemma error_frames_frames_of [simp]: "error_frames (frames_of e u) = []"
  by (simp add: frames_of_def split: option.splits)

lemma step_turn_rel:
  assumes "queue_ok s" and "turn_rel s0 s" and "step e ev s = Some s'"
  shows "turn_rel s0 s'"
proof (cases ev)
  case StreamNext
  with assms show ?thesis
    by (auto simp: step_def turn_rel_def phase_ok_def response_total_def loop_body_def Let_def
          await_idle_def finish_turn_def send_def stream_raised_def pq_add_def pq_start_next_def
          pq_idle_def queue_ok_def split: if_splits list.splits option.splits)
next
  case (TtsSettles i)
  with assms have i: "i < length (running (ttsQueue s))"
    by (simp add: step_def split: if_splits)
  with assms(1) obtain u where u: "running (ttsQueue s) = [u]" and i0: "i = 0"
    by (cases "running (ttsQueue s)") (auto simp: queue_ok_def)
  with assms TtsSettles show ?thesis
    by (auto simp: step_def turn_rel_def phase_ok_def response_total_def Let_def finish_turn_def
          send_def pq_settle_def pq_start_next_def pq_idle_def tts_task_ws queue_ok_def
          split: if_splits list.splits option.splits)
qed

lemma audio_frames_Cons [simp]:
  "audio_frames (status_msg t # ms) = audio_frames ms"
  "audio_frames (text_msg t # ms) = audio_frames ms"
  "audio_frames (error_msg t # ms) = audio_frames ms"
  "audio_frames (audio_msg t a # ms) = audio_msg t a # audio_frames ms"
  by (simp_all add: audio_frames_def status_msg_def text_msg_def error_msg_def audio_msg_def)

lemma error_frames_Cons [simp]:
  "error_frames (status_msg t # ms) = error_frames ms"
  "error_frames (text_msg t # ms) = error_frames ms"
  "error_frames (error_msg t # ms) = error_msg t # error_frames ms"
  "error_frames (audio_msg t a # ms) = error_frames ms"
  by (simp_all add: error_frames_def status_msg_def text_msg_def error_msg_def audio_msg_def)

lemma exec_invariants:
  "queue_ok s \<Longrightarrow> turn_rel s0 s \<Longrightarrow> progress_inv e s0 s \<Longrightarrow> exec e evs s = Some s' \<Longrightarrow>
   queue_ok s' \<and> turn_rel s0 s' \<and> progress_inv e s0 s'"
proof (induction evs arbitrary: s)
  case Nil
  then show ?case by simp
next
  case (Cons ev evs)
  from Cons.prems(4) obtain s1 where s1: "step e ev s = Some s1" "exec e evs s1 = Some s'"
    by (auto split: option.splits)
  from Cons.prems s1 have "queue_ok s1" "turn_rel s0 s1" "progress_inv e s0 s1"
    by (blast intro: step_queue_ok step_turn_rel step_progress_inv)+
  with Cons.IH s1 show ?case by blast
qed

lemma pq_start_next_size:
  "length (waiting (pq_start_next q)) + length (running (pq_start_next q)) =
   length (waiting q) + length (running q)"
  by (simp add: pq_start_next_def split: list.splits)

lemma pq_add_size:
  "length (waiting (pq_add t q)) + length (running (pq_add t q)) =
   Suc (length (waiting q) + length (running q))"
  using pq_start_next_size [of "q\<lparr>waiting := waiting q @ [t]\<rparr>"] by (simp add: pq_add_def)

lemma pq_settle_size:
  "i < length (running q) \<Longrightarrow>
   Suc (length (waiting (pq_settle i q)) + length (running (pq_settle i q))) =
   length (waiting q) + length (running q)"
  using pq_start_next_size [of "q\<lparr>running := take i (running q) @ drop (Suc i) (running q)\<rparr>"]
  by (simp add: pq_settle_def)

lemma step_measure:
  assumes "step e ev s = Some s'"
  shows "turn_measure s' < turn_measure s"
proof (cases ev)
  case StreamNext
  with assms show ?thesis
    using pq_add_size [of "(unitCount s, trim (hd (textStream s)))" "ttsQueue s"]
    by (auto simp: step_def turn_measure_def loop_body_def Let_def await_idle_def finish_turn_def
          send_def stream_raised_def split: if_splits list.splits option.splits)
next
  case (TtsSettles i)
  with assms have i: "i < length (running (ttsQueue s))"
    by (simp add: step_def split: if_splits)
  from assms TtsSettles i pq_settle_size [OF i] show ?thesis
    by (auto simp: step_def turn_measure_def Let_def finish_turn_def send_def
          split: if_splits)
qed

lemma exec_bounded: "exec e evs s = Some s' \<Longrightarrow> length evs + turn_measure s' \<le> turn_measure s"
proof (induction evs arbitrary: s)
  case Nil
  then show ?case by simp
next
  case (Cons ev evs)
  from Cons.prems obtain s1 where s1: "step e ev s = Some s1" "exec e evs s1 = Some s'"
    by (auto split: option.splits)
  from Cons.IH [OF s1(2)] step_measure [OF s1(1)] show ?case by simp
qed

lemma step_enabled:
  assumes "queue_ok s" and "\<not> turn_over s"
  shows "\<exists>ev s'. step e ev s = Some s'"
proof (cases "phase s = Streaming")
  case True
  then have "step e StreamNext s \<noteq> None"
    by (simp add: step_def split: list.splits option.splits)
  then show ?thesis by blast
next
  case False
  with assms have "running (ttsQueue s) \<noteq> []"
    by (auto simp: turn_over_def pq_idle_def queue_ok_def)
  then have "step e (TtsSettles 0) s \<noteq> None"
    by (simp add: step_def Let_def)
  then show ?thesis by blast
qed

lemma turn_completes:
  "queue_ok s \<Longrightarrow> \<exists>evs s'. exec e evs s = Some s' \<and> turn_over s'"
proof (induction "turn_measure s" arbitrary: s rule: less_induct)
  case less
  show ?case
  proof (cases "turn_over s")
    case True
    then have "exec e [] s = Some s \<and> turn_over s" by simp
    then show ?thesis by blast
  next
    case False
    with less.prems obtain ev s1 where s1: "step e ev s = Some s1"
      using step_enabled by blast
    from s1 less.prems have "queue_ok s1" by (rule step_queue_ok [rotated])
    with less.hyps [OF step_measure [OF s1]] obtain evs s' where
      "exec e evs s1 = Some s'" "turn_over s'" by blast
    with s1 have "exec e (ev # evs) s = Some s' \<and> turn_over s'" by simp
    then show ?thesis by blast
  qed
qed

lemma units_from_fst: "map fst (units_from k cs) = [k..<k + length (units_from k cs)]"
proof (induction cs arbitrary: k)
  case Nil
  then show ?case by simp
next
  case (Cons c cs)
  show ?case
  proof (cases "trim c = []")
    case True
    with Cons show ?thesis by simp
  next
    case False
    have "[k..<k + Suc (length (units_from (Suc k) cs))] =
          k # [Suc k..<Suc k + length (units_from (Suc k) cs)]"
      by (subst upt_conv_Cons) auto
    with False Cons [of "Suc k"] show ?thesis by simp
  qed
qed

lemma units_from_nonempty: "u \<in> set (units_from k cs) \<Longrightarrow> snd u \<noteq> []"
  by (induction cs arbitrary: k) (auto split: if_splits)

lemma join_space_Cons:
  "join_space (x # xs) = (if xs = [] then x else x @ '' '' @ join_space xs)"
  by (cases xs) simp_all

lemma join_more_join_space:
  "\<forall>x \<in> set xs. x \<noteq> [] \<Longrightarrow>
   join_more acc xs = (if acc = [] then join_space xs
                       else if xs = [] then acc else acc @ '' '' @ join_space xs)"
proof (induction xs arbitrary: acc)
  case Nil
  then show ?case by simp
next
  case (Cons x xs)
  from Cons.prems have x: "x \<noteq> []" and xs: "\<forall>y \<in> set xs. y \<noteq> []" by auto
  show ?case
    using x by (simp add: Cons.IH [OF xs] join_space_Cons del: join_space.simps)
qed

text \<open>The state in which the events of a turn with a transcription start.\<close>

lemma turn_start:
  assumes "transcribeAudio (ai_whisper e a) = Some tr"
    and "ai_chat e (msgHistory s @ [\<lparr>role = User, content = tr\<rparr>]) = (chunks, ending)"
  shows "queue_ok (handleAudioInput e s a)"
    and "phase (handleAudioInput e s a) = Streaming"
    and "msgHistory (handleAudioInput e s a) = msgHistory s @ [\<lparr>role = User, content = tr\<rparr>]"
    and "ws (handleAudioInput e s a) = ws s @ [status_msg ''Processing....'', text_msg tr]"
    and "pending_units (handleAudioInput e s a) = units_from 0 chunks"
    and "streamEnd (handleAudioInput e s a) = ending"
    and "response_total (handleAudioInput e s a) = join_more [] (map snd (units_from 0 chunks))"
    and "turn_measure (handleAudioInput e s a) = 2 * Suc (length chunks)"
  using assms
  by (simp_all add: handleAudioInput_def generateAndSpeakResponse_def send_def queue_ok_def
        new_pqueue_def pending_units_def response_total_def turn_measure_def)

lemma turn_rel_refl: "phase s = Streaming \<Longrightarrow> turn_rel s s"
  by (simp add: turn_rel_def phase_ok_def split: option.splits)

lemma turn_run:
  assumes tr: "transcribeAudio (ai_whisper e a) = Some tr"
    and chat: "ai_chat e (msgHistory s @ [\<lparr>role = User, content = tr\<rparr>]) = (chunks, ending)"
    and run: "exec e sched (handleAudioInput e s a) = Some s'"
  shows "queue_ok s'"
    and "turn_rel (handleAudioInput e s a) s'"
    and "progress_inv e (handleAudioInput e s a) s'"
proof -
  let ?s0 = "handleAudioInput e s a"
  have "queue_ok ?s0" "turn_rel ?s0 ?s0" "progress_inv e ?s0 ?s0"
    using turn_start(1,2) [OF tr chat] by (simp_all add: turn_rel_refl progress_inv_refl)
  with run have "queue_ok s' \<and> turn_rel ?s0 s' \<and> progress_inv e ?s0 s'"
    by (rule exec_invariants [rotated 3])
  then show "queue_ok s'" "turn_rel ?s0 s'" "progress_inv e ?s0 s'" by simp_all
qed

text \<open>When the turn is over, the frames of all units have been sent, in the order of the units.\<close>

lemma turn_run_audio:
  assumes tr: "transcribeAudio (ai_whisper e a) = Some tr"
    and chat: "ai_chat e (msgHistory s @ [\<lparr>role = User, content = tr\<rparr>]) = (chunks, ending)"
    and run: "exec e sched (handleAudioInput e s a) = Some s'"
  shows "\<exists>n. n \<le> length (units_from 0 chunks) \<and>
              audio_frames (ws s') =
                audio_frames (ws s) @ concat (map (frames_of e) (take n (units_from 0 chunks))) \<and>
              (turn_over s' \<longrightarrow> n = length (units_from 0 chunks))"
proof -
  let ?s0 = "handleAudioInput e s a"
  let ?us = "units_from 0 chunks"
  note start = turn_start [OF tr chat]
  from turn_run [OF tr chat run] have p: "progress_inv e ?s0 s'" by simp
  from p obtain d where d: "?us = d @ pending_units s'"
    "audio_frames (ws s') = audio_frames (ws ?s0) @ concat (map (frames_of e) d)"
    by (auto simp: progress_inv_def start(5))
  have n: "length d \<le> length ?us" using d(1) by (metis le_add1 length_append)
  have tk: "take (length d) ?us = d" using d(1) by (metis append_eq_conv_conj)
  have 3: "audio_frames (ws s') = audio_frames (ws s) @ concat (map (frames_of e) (take (length d) ?us))"
    using d(2) by (simp add: tk start(4))
  have 4: "turn_over s' \<longrightarrow> length d = length ?us"
  proof
    assume "turn_over s'"
    moreover from turn_run(2) [OF tr chat run] have "phase_ok s'" by (simp add: turn_rel_def)
    ultimately have "pending_units s' = []"
      by (cases "phase s'") (auto simp: turn_over_def pq_idle_def phase_ok_def pending_units_def)
    with d(1) show "length d = length ?us" by simp
  qed
  from n 3 4 show ?thesis by blast
qed

lemma turn_can_finish:
  assumes tr: "transcribeAudio (ai_whisper e a) = Some tr"
    and chat: "ai_chat e (msgHistory s @ [\<lparr>role = User, content = tr\<rparr>]) = (chunks, ending)"
  shows "\<exists>sched s'. exec e sched (handleAudioInput e s a) = Some s' \<and> turn_over s'"
  using turn_completes [OF turn_start(1) [OF tr chat]] .



lemma turn_run_phase:
  assumes tr: "transcribeAudio (ai_whisper e a) = Some tr"
    and chat: "ai_chat e (msgHistory s @ [\<lparr>role = User, content = tr\<rparr>]) = (chunks, ending)"
    and run: "exec e sched (handleAudioInput e s a) = Some s'"
  shows "phase_ok s'" and "streamEnd s' = ending"
    and "response_total s' = join_space (map snd (units_from 0 chunks))"
    and "msgHistory s' =
           msgHistory s @ [\<lparr>role = User, content = tr\<rparr>] @
           (if phase s' = Returned then [\<lparr>role = Assistant, content = fullResponse s'\<rparr>] else [])"
    and "phase s' = Returned \<Longrightarrow> ws s' \<noteq> [] \<and> last (ws s') = status_msg ''Idle''"
    and "error_frames (ws s') =
           error_frames (ws s) @
           (case ending of
              None \<Rightarrow> []
            | Some x \<Rightarrow> if phase s' = Thrown then [error_msg (error_text x)] else [])"
proof -
  note start = turn_start [OF tr chat]
  from turn_run(2) [OF tr chat run] have r: "turn_rel (handleAudioInput e s a) s'" .
  then show "phase_ok s'" by (simp add: turn_rel_def)
  from r show e: "streamEnd s' = ending" by (simp add: turn_rel_def start(6))
  have "\<forall>x \<in> set (map snd (units_from 0 chunks)). x \<noteq> []"
    using units_from_nonempty by auto
  then have "join_more [] (map snd (units_from 0 chunks)) = join_space (map snd (units_from 0 chunks))"
    by (simp add: join_more_join_space)
  with r show "response_total s' = join_space (map snd (units_from 0 chunks))"
    by (simp add: turn_rel_def start(7))
  from r show "msgHistory s' =
           msgHistory s @ [\<lparr>role = User, content = tr\<rparr>] @
           (if phase s' = Returned then [\<lparr>role = Assistant, content = fullResponse s'\<rparr>] else [])"
    by (simp add: turn_rel_def start(3))
  from r show "phase s' = Returned \<Longrightarrow> ws s' \<noteq> [] \<and> last (ws s') = status_msg ''Idle''"
    by (simp add: turn_rel_def)
  from r e show "error_frames (ws s') =
           error_frames (ws s) @
           (case ending of
              None \<Rightarrow> []
            | Some x \<Rightarrow> if phase s' = Thrown then [error_msg (error_text x)] else [])"
    by (simp add: turn_rel_def start(4))
qed

section \<open>Lemmas about base64\<close>

lemma b64_char_cases:
  "list_all (\<lambda>n. b64_value (b64_char n) = Some n \<and> b64_char n \<noteq> CHR ''='' \<and>
                 \<not> is_ascii_whitespace (b64_char n)) (map nat [0..63])"
  by (simp add: upto.simps b64_char_def b64_alphabet_def b64_value_def is_ascii_whitespace_def)

lemma b64_char_props:
  shows "b64_value (b64_char n) = Some (n mod 64)" and "b64_char n \<noteq> CHR ''=''"
    and "\<not> is_ascii_whitespace (b64_char n)"
proof -
  have e: "b64_char n = b64_char (n mod 64)" by (simp add: b64_char_def)
  have "int (n mod 64) \<in> set [0..63]" by simp
  then have "nat (int (n mod 64)) \<in> nat ` set [0..63]" by (rule imageI)
  then have "n mod 64 \<in> set (map nat [0..63])" by (simp only: set_map nat_int)
  with b64_char_cases have
    "b64_value (b64_char (n mod 64)) = Some (n mod 64) \<and> b64_char (n mod 64) \<noteq> CHR ''='' \<and>
     \<not> is_ascii_whitespace (b64_char (n mod 64))"
    unfolding list_all_iff by (rule bspec)
  then show "b64_value (b64_char n) = Some (n mod 64)" "b64_char n \<noteq> CHR ''=''"
    "\<not> is_ascii_whitespace (b64_char n)"
    unfolding e by simp_all
qed

lemma b64_groups_length: "length (b64_groups bs) = 4 * ((length bs + 2) div 3)"
proof (induction bs rule: b64_groups.induct)
  case (1 a b c r)
  have "(5 + length r) div 3 = Suc ((length r + 2) div 3)" by presburger
  with 1 show ?case by simp
qed simp_all

lemma pad_no_space: "\<not> is_ascii_whitespace CHR ''=''"
  by (simp add: is_ascii_whitespace_def)

lemma b64_groups_no_space: "filter (\<lambda>c. \<not> is_ascii_whitespace c) (b64_groups bs) = b64_groups bs"
  by (induction bs rule: b64_groups.induct) (simp_all add: b64_char_props(3) pad_no_space)

lemma strip_padding_snoc2:
  "strip_padding (u @ [z1, z2]) =
     (if length u mod 4 = 2 \<and> z2 = CHR ''='' then (if z1 = CHR ''='' then u else u @ [z1])
      else u @ [z1, z2])"
proof -
  have "(length u + 2) mod 4 = 0 \<longleftrightarrow> length u mod 4 = 2" by presburger
  moreover have "\<And>a b. butlast (u @ [a, b]) = u @ [a]" by (simp add: butlast_append)
  ultimately show ?thesis by (simp add: strip_padding_def)
qed

lemma strip_padding_Cons4:
  assumes "x4 \<noteq> CHR ''=''" and "length g mod 4 = 0"
  shows "strip_padding (x1 # x2 # x3 # x4 # g) = x1 # x2 # x3 # x4 # strip_padding g"
proof (cases "g = []")
  case True
  with assms show ?thesis by (simp add: strip_padding_def)
next
  case False
  with assms(2) have l2: "2 \<le> length g" by (cases g; cases "tl g") auto
  then obtain g1 z2 where g1: "g = g1 @ [z2]" by (cases g rule: rev_cases) auto
  with l2 obtain h z1 where "g1 = h @ [z1]" by (cases g1 rule: rev_cases) auto
  with g1 have g: "g = h @ [z1, z2]" by simp
  have "length g = length h + 2" by (subst g) simp
  with assms(2) have "length h mod 4 = 2" by presburger
  moreover have "length (x1 # x2 # x3 # x4 # h) mod 4 = length h mod 4" by simp
  ultimately show ?thesis
    using strip_padding_snoc2 [of "x1 # x2 # x3 # x4 # h" z1 z2] strip_padding_snoc2 [of h z1 z2]
    by (simp add: g)
qed

lemma b64_values_Cons:
  "n < 64 \<Longrightarrow> b64_values (b64_char n # cs) = map_option ((#) n) (b64_values cs)"
  by (simp add: b64_char_props(1) split: option.splits)

lemma b64_arith1: "b < 256 \<Longrightarrow> a div 4 * 4 + (a mod 4 * 16 + b div 16) div 16 = (a::nat)"
  by (simp add: div_mult2_eq [symmetric])

lemma b64_arith2: "(a mod 4 * 16 + b div 16) mod 16 * 16 + (b mod 16 * 4 + c div 64) div 4 = (b::nat)"
  if "b < 256" "c < 256"
proof -
  from that have "b div 16 < 16" "c div 64 < 4" by simp_all
  then have "(a mod 4 * 16 + b div 16) mod 16 = b div 16" "(b mod 16 * 4 + c div 64) div 4 = b mod 16"
    by simp_all
  then show ?thesis by simp
qed

lemma b64_arith3: "c < 256 \<Longrightarrow> (b mod 16 * 4 + c div 64) mod 4 * 64 + c mod 64 = (c::nat)"
proof -
  assume "c < 256"
  then have "c div 64 < 4" by simp
  then have "(b mod 16 * 4 + c div 64) mod 4 = c div 64"
    by (simp add: mod_mult_self3)
  then show ?thesis by simp
qed

lemma b64_arith4: "(a mod 4 * 16 + b div 16) mod 16 * 16 + (b mod 16 * 4) div 4 = (b::nat)" if "b < 256"
proof -
  from that have "b div 16 < 16" by simp
  then have "(a mod 4 * 16 + b div 16) mod 16 = b div 16" by simp
  then show ?thesis by simp
qed

lemma b64_arith5: "a div 4 * 4 + (a mod 4 * 16) div 16 = (a::nat)"
  by simp

lemma sextet_bound1: "a < 256 \<Longrightarrow> a div 4 < (64::nat)"
  by simp

lemma sextet_bound2: "b < 256 \<Longrightarrow> (a mod 4) * 16 + b div 16 < (64::nat)"
proof -
  assume "b < 256" then have "b div 16 < 16" by simp
  moreover have "a mod 4 < 4" by simp
  ultimately show ?thesis by linarith
qed

lemma sextet_bound3: "c < 256 \<Longrightarrow> (b mod 16) * 4 + c div 64 < (64::nat)"
proof -
  assume "c < 256" then have "c div 64 < 4" by simp
  moreover have "b mod 16 < 16" by simp
  ultimately show ?thesis by linarith
qed

lemma sextet_bound4: "(b mod 16) * 4 < (64::nat)" "(a mod 4) * 16 < (64::nat)" "c mod 64 < (64::nat)"
  by simp_all


lemma b64_values_strip:
  "\<forall>b \<in> set bs. b < 256 \<Longrightarrow> b64_values (strip_padding (b64_groups bs)) = Some (sextets bs)"
proof (induction bs rule: b64_groups.induct)
  case (1 a b c r)
  then have bd: "a < 256" "b < 256" "c < 256" and r: "\<forall>x \<in> set r. x < 256" by auto
  have len: "length (b64_groups r) mod 4 = 0" by (simp add: b64_groups_length)
  show ?case
    using "1.IH" [OF r] sextet_bound1 [OF bd(1)] sextet_bound2 [OF bd(2), of a]
      sextet_bound3 [OF bd(3), of b] sextet_bound4(3) [of c]
    by (simp add: strip_padding_Cons4 [OF b64_char_props(2) len] b64_values_Cons
          del: b64_values.simps(2))
next
  case (2 a b)
  then have bd: "a < 256" "b < 256" by auto
  from sextet_bound1 [OF bd(1)] sextet_bound2 [OF bd(2), of a] sextet_bound4(1) [of b] show ?case
    by (simp add: strip_padding_def b64_values_Cons b64_char_props(2)
          del: b64_values.simps(2))
next
  case (3 a)
  then have bd: "a < 256" by auto
  from sextet_bound1 [OF bd] sextet_bound4(2) [of a] show ?case
    by (simp add: strip_padding_def b64_values_Cons b64_char_props(2)
          del: b64_values.simps(2))
next
  case 4
  show ?case by (simp add: strip_padding_def)
qed

lemma sextets_length: "length (sextets bs) mod 4 \<noteq> 1"
  by (induction bs rule: sextets.induct) simp_all

lemma b64_bytes_sextets: "\<forall>b \<in> set bs. b < 256 \<Longrightarrow> b64_bytes (sextets bs) = bs"
proof (induction bs rule: sextets.induct)
  case (1 a b c r)
  then have bd: "a < 256" "b < 256" "c < 256" and r: "\<forall>x \<in> set r. x < 256" by auto
  from "1.IH" [OF r] b64_arith1 [OF bd(2), of a] b64_arith2 [OF bd(2,3), of a]
    b64_arith3 [OF bd(3), of b]
  show ?case by simp
next
  case (2 a b)
  then have bd: "a < 256" "b < 256" by auto
  from b64_arith1 [OF bd(2), of a] b64_arith4 [OF bd(2), of a] show ?case by simp
next
  case (3 a)
  from b64_arith5 [of a] show ?case by simp
next
  case 4
  show ?case by simp
qed

lemma strip_padding_length:
  "\<forall>b \<in> set bs. b < 256 \<Longrightarrow> length (strip_padding (b64_groups bs)) = length (sextets bs)"
proof -
  assume "\<forall>b \<in> set bs. b < 256"
  from b64_values_strip [OF this] have "b64_values (strip_padding (b64_groups bs)) = Some (sextets bs)" .
  moreover have "\<And>cs vs. b64_values cs = Some vs \<Longrightarrow> length cs = length vs"
  proof -
    fix cs vs show "b64_values cs = Some vs \<Longrightarrow> length cs = length vs"
      by (induction cs arbitrary: vs) (auto split: option.splits)
  qed
  ultimately show ?thesis by blast
qed

lemma atob_btoa: "atob (btoa s) = Some s"
proof -
  let ?bs = "map of_char s :: nat list"
  have bd: "\<forall>b \<in> set ?bs. b < 256" by auto
  have "map char_of (b64_bytes (sextets ?bs)) = s"
    by (simp add: b64_bytes_sextets [OF bd] comp_def)
  with b64_values_strip [OF bd] strip_padding_length [OF bd] sextets_length [of ?bs]
  show ?thesis
    by (simp add: atob_def btoa_def b64_groups_no_space Let_def)
qed

lemma b64_groups_take:
  "3 * k \<le> length bs \<Longrightarrow> take (4 * k) (b64_groups bs) = b64_groups (take (3 * k) bs)"
proof (induction k arbitrary: bs)
  case 0
  then show ?case by simp
next
  case (Suc k)
  then obtain a b c r where bs: "bs = a # b # c # r"
    by (cases bs; cases "tl bs"; cases "tl (tl bs)") auto
  with Suc.prems have "3 * k \<le> length r" by simp
  note ih = Suc.IH [OF this]
  have e4: "4 * Suc k = Suc (Suc (Suc (Suc (4 * k))))" and e3: "3 * Suc k = Suc (Suc (Suc (3 * k)))"
    by simp_all
  show ?case unfolding e4 e3 bs using ih by simp
qed


section \<open>Lemmas about the classifier\<close>

text \<open>What \<open>sniffAudioMime\<close> decodes from the base64 text of a payload.\<close>

lemma btoa_length: "length (btoa p) = 4 * ((length p + 2) div 3)"
  by (simp add: btoa_def b64_groups_length)

lemma btoa_take: "15 \<le> length p \<Longrightarrow> take 20 (btoa p) = btoa (take 15 p)"
  using b64_groups_take [of 5 "map of_char p"] by (simp add: btoa_def take_map)

lemma atob_head:
  assumes "13 \<le> length p"
  shows "atob (take 20 (btoa p)) = Some (take 15 p)"
proof (cases "15 \<le> length p")
  case True
  then show ?thesis by (simp add: btoa_take atob_btoa)
next
  case False
  with assms have "length p = 13 \<or> length p = 14" by arith
  then have "length (btoa p) = 20" by (auto simp: btoa_length)
  then have "take 20 (btoa p) = btoa p" by simp
  moreover from False have "take 15 p = p" by simp
  ultimately show ?thesis by (simp only: atob_btoa)
qed

lemma startsWith_RIFF_code:
  "startsWith q ''RIFF'' \<Longrightarrow> charCodeAt q 0 = Some 82"
  by (cases q) (simp_all add: charCodeAt_def)

lemma startsWith_take:
  "startsWith (take n q) pre = (startsWith q pre \<and> length pre \<le> n)"
proof (induction q pre arbitrary: n rule: startsWith.induct)
  case (1 s)
  then show ?case by simp
next
  case (2 p ps)
  then show ?case by simp
next
  case (3 c cs p ps)
  then show ?case by (cases n) auto
qed

lemma sniffAudioMime_btoa:
  "sniffAudioMime (btoa p) =
     (if 13 \<le> length p \<and> charCodeAt p 0 = Some 255 \<and>
         (case charCodeAt p 1 of None \<Rightarrow> False | Some c \<Rightarrow> c AND 224 = 224)
      then ''audio/mpeg'' else ''audio/wav'')"
proof (cases "13 \<le> length p")
  case True
  then have len: "\<not> length (btoa p) < 20" "btoa p \<noteq> []"
    by (auto simp: btoa_length simp flip: length_0_conv)
  from True have cc: "charCodeAt (take 15 p) 0 = charCodeAt p 0"
    "charCodeAt (take 15 p) 1 = charCodeAt p 1"
    by (simp_all add: charCodeAt_def)
  have t: "sniffAudioMime_try (btoa p) =
          (if startsWith (take 15 p) ''RIFF'' \<and> includes_str (take 15 p) ''WAVE'' then Inr ''audio/wav''
           else if charCodeAt p 0 = Some 255 \<and>
                   (case charCodeAt p 1 of None \<Rightarrow> False | Some c \<Rightarrow> c AND 224 = 224)
           then Inr ''audio/mpeg''
           else Inr ''audio/wav'')"
    unfolding sniffAudioMime_try_def
    by (simp only: len atob_head [OF True] cc if_False option.case simp_thms)
  show ?thesis
  proof (cases "startsWith (take 15 p) ''RIFF''")
    case r: True
    from startsWith_RIFF_code [OF r] cc(1) have "charCodeAt p 0 \<noteq> Some 255" by simp
    with t True show ?thesis by (simp add: sniffAudioMime_def)
  next
    case False
    with t True show ?thesis by (simp add: sniffAudioMime_def)
  qed
next
  case False
  then have "length (btoa p) < 20" by (simp add: btoa_length)
  then have "sniffAudioMime_try (btoa p) = Inr ''audio/wav''"
    by (simp add: sniffAudioMime_try_def)
  with False show ?thesis by (simp add: sniffAudioMime_def)
qed

lemma sniffAudioMime_range: "sniffAudioMime s = ''audio/wav'' \<or> sniffAudioMime s = ''audio/mpeg''"
  by (simp add: sniffAudioMime_def sniffAudioMime_try_def split: option.splits)

lemma sniffAudioMime_short: "length s < 20 \<Longrightarrow> sniffAudioMime s = ''audio/wav''"
  by (simp add: sniffAudioMime_def sniffAudioMime_try_def)

lemma sniffAudioMime_head: "20 \<le> length s \<Longrightarrow> sniffAudioMime s = sniffAudioMime (take 20 s)"
proof -
  assume l: "20 \<le> length s"
  then have "s \<noteq> []" "take 20 s \<noteq> []" by auto
  with l show ?thesis by (simp add: sniffAudioMime_def sniffAudioMime_try_def)
qed

section \<open>Lemmas about the client\<close>

lemma playNextInQueue_messages: "messages (playNextInQueue s) = messages s"
proof (induction s rule: playNextInQueue.induct)
  case (1 s)
  show ?case
    by (subst playNextInQueue.simps)
       (auto simp: Let_def 1 split: option.splits sum.splits)
qed

section \<open>Lemmas about the WAV encoder\<close>


lemma wav_header_length: "length (wav_header n r) = 44"
  by (simp add: wav_header_def Let_def writeString_def setUint32_def setUint16_def)

lemma int16_bytes: "word_cat (ucast (drop_bit 8 w) :: 8 word) (ucast w :: 8 word) = (w :: 16 word)"
  by (rule bit_word_eqI) (auto simp: bit_word_cat_iff bit_ucast_iff bit_drop_bit_eq not_less)

lemma int32_bytes:
  "word_cat (ucast (drop_bit 24 w) :: 8 word)
     (word_cat (ucast (drop_bit 16 w) :: 8 word)
        (word_cat (ucast (drop_bit 8 w) :: 8 word) (ucast w :: 8 word) :: 16 word) :: 24 word)
   = (w :: 32 word)"
  by (rule bit_word_eqI) (auto simp: bit_word_cat_iff bit_ucast_iff bit_drop_bit_eq not_less)

lemma getUint32_setUint32: "getUint32 (setUint32 v) = of_nat v"
  by (simp add: getUint32_def setUint32_def Let_def int32_bytes)

lemma getUint16_setUint16: "getUint16 (setUint16 v) = of_nat v"
  by (simp add: getUint16_def setUint16_def Let_def int16_bytes)

lemma parse_encode:
  "parseWav (encodeWavPCM16 samples sampleRate) =
     Some \<lparr>riffSize = of_nat (36 + 2 * length samples), fmtSize = 16, audioFormat = 1,
            channelCount = 1, rate = of_nat sampleRate, bytesPerSecond = of_nat (sampleRate * 2),
            frameSize = 2, sampleBits = 16, dataBytes = of_nat (2 * length samples),
            pcm = getInt16s (concat (map (\<lambda>x. setInt16 (pcmSample x)) samples))\<rparr>"
proof -
  let ?d = "concat (map (\<lambda>x. setInt16 (pcmSample x)) samples)"
  let ?n = "length samples"
  have e: "encodeWavPCM16 samples sampleRate =
      writeString ''RIFF'' @ setUint32 (36 + 2 * ?n) @ writeString ''WAVE'' @
      writeString ''fmt '' @ setUint32 16 @ setUint16 1 @ setUint16 1 @
      setUint32 sampleRate @ setUint32 (sampleRate * 2) @ setUint16 2 @
      setUint16 16 @ writeString ''data'' @ setUint32 (2 * ?n) @ ?d"
    by (simp add: encodeWavPCM16_def wav_header_def Let_def mult.commute)
  have l4: "\<And>v. length (setUint32 v) = 4" and l2: "\<And>v. length (setUint16 v) = 2"
    and ls: "\<And>s. length (writeString s) = length s"
    by (simp_all add: setUint32_def setUint16_def writeString_def Let_def)
  have s0: "slice 0 4 (encodeWavPCM16 samples sampleRate) = writeString ''RIFF''"
    unfolding e slice_def by (simp add: ls)
  have s4: "slice 4 4 (encodeWavPCM16 samples sampleRate) = setUint32 (36 + 2 * ?n)"
    unfolding e slice_def by (simp add: ls l4)
  have s8: "slice 8 4 (encodeWavPCM16 samples sampleRate) = writeString ''WAVE''"
    unfolding e slice_def by (simp add: ls l4)
  have s12: "slice 12 4 (encodeWavPCM16 samples sampleRate) = writeString ''fmt ''"
    unfolding e slice_def by (simp add: ls l4)
  have s16: "slice 16 4 (encodeWavPCM16 samples sampleRate) = setUint32 16"
    unfolding e slice_def by (simp add: ls l4)
  have s20: "slice 20 2 (encodeWavPCM16 samples sampleRate) = setUint16 1"
    unfolding e slice_def by (simp add: ls l4 l2)
  have s22: "slice 22 2 (encodeWavPCM16 samples sampleRate) = setUint16 1"
    unfolding e slice_def by (simp add: ls l4 l2)
  have s24: "slice 24 4 (encodeWavPCM16 samples sampleRate) = setUint32 sampleRate"
    unfolding e slice_def by (simp add: ls l4 l2)
  have s28: "slice 28 4 (encodeWavPCM16 samples sampleRate) = setUint32 (sampleRate * 2)"
    unfolding e slice_def by (simp add: ls l4 l2)
  have s32: "slice 32 2 (encodeWavPCM16 samples sampleRate) = setUint16 2"
    unfolding e slice_def by (simp add: ls l4 l2)
  have s34: "slice 34 2 (encodeWavPCM16 samples sampleRate) = setUint16 16"
    unfolding e slice_def by (simp add: ls l4 l2)
  have s36: "slice 36 4 (encodeWavPCM16 samples sampleRate) = writeString ''data''"
    unfolding e slice_def by (simp add: ls l4 l2)
  have s40: "slice 40 4 (encodeWavPCM16 samples sampleRate) = setUint32 (2 * ?n)"
    unfolding e slice_def by (simp add: ls l4 l2)
  have d: "drop 44 (encodeWavPCM16 samples sampleRate) = ?d"
    by (simp add: encodeWavPCM16_def wav_header_length)
  show ?thesis
    unfolding parseWav_def s0 s4 s8 s12 s16 s20 s22 s24 s28 s32 s34 s36 s40 d
      getUint32_setUint32 getUint16_setUint16
    by simp
qed

lemma getInt16s_setInt16:
  "getInt16s (concat (map (\<lambda>x. setInt16 (f x)) xs)) = map (\<lambda>x. sint (toInt16 (f x))) xs"
  by (induction xs) (simp_all add: setInt16_def Let_def int16_bytes)

lemma pcmSample_Num:
  "pcmSample (Num r) =
     Num (if max (- 1) (min 1 r) < 0 then max (- 1) (min 1 r) * 32768
          else max (- 1) (min 1 r) * 32767)"
  by (auto simp: pcmSample_def math_min_def math_max_def less_zero_def times_def Let_def)

lemma pcmSample_others:
  "pcmSample PosInf = Num 32767" "pcmSample NegInf = Num (- 32768)" "pcmSample NaN = NaN"
  by (simp_all add: pcmSample_def math_min_def math_max_def less_zero_def times_def Let_def)

lemma sint_int16: "- 32768 \<le> k \<Longrightarrow> k \<le> 32767 \<Longrightarrow> sint (of_int k :: 16 word) = k"
  by (simp add: sint_sbintrunc' signed_take_bit_int_eq_self)

text \<open>The stored value of a clamped sample \<open>c\<close> and the errors of the two decoders.\<close>

lemma stored_negative:
  assumes "- 1 \<le> c" and "c < (0::real)"
  shows "sint (of_int (truncate_real (c * 32768)) :: 16 word) = \<lceil>c * 32768\<rceil>"
    and "\<bar>dequantize \<lceil>c * 32768\<rceil> - c\<bar> < 1 / 32767"
    and "\<bar>dequantize_32768 \<lceil>c * 32768\<rceil> - c\<bar> < 2 / 32768"
proof -
  let ?k = "\<lceil>c * 32768\<rceil>"
  from assms have t: "truncate_real (c * 32768) = ?k"
    by (simp add: truncate_real_def mult_less_0_iff)
  from assms(1) have "- 32768 \<le> c * 32768" by simp
  then have lo: "- 32768 \<le> ?k" by linarith
  from assms(2) have "c * 32768 \<le> 0" by simp
  then have hi: "?k \<le> 0" by (simp add: ceiling_le_iff)
  from lo hi show "sint (of_int (truncate_real (c * 32768)) :: 16 word) = ?k"
    unfolding t by (intro sint_int16) simp_all
  have a: "c * 32768 \<le> real_of_int ?k" and b: "real_of_int ?k < c * 32768 + 1"
    by linarith+
  from a have a': "c \<le> real_of_int ?k / 32768" by simp
  from b have b': "real_of_int ?k / 32768 < c + 1 / 32768" by (simp add: field_simps)
  from a' b' show "\<bar>dequantize_32768 ?k - c\<bar> < 2 / 32768"
    by (simp add: dequantize_32768_def abs_less_iff)
  show "\<bar>dequantize ?k - c\<bar> < 1 / 32767"
  proof (cases "?k < 0")
    case True
    with a' b' show ?thesis by (simp add: dequantize_def abs_less_iff)
  next
    case False
    with hi have z: "?k = 0" by linarith
    with b have "- (1 / 32768) < c" by simp
    with assms(2) z show ?thesis by (simp add: dequantize_def abs_less_iff)
  qed
qed

lemma stored_nonnegative:
  assumes "0 \<le> c" and "c \<le> (1::real)"
  shows "sint (of_int (truncate_real (c * 32767)) :: 16 word) = \<lfloor>c * 32767\<rfloor>"
    and "\<bar>dequantize \<lfloor>c * 32767\<rfloor> - c\<bar> < 1 / 32767"
    and "\<bar>dequantize_32768 \<lfloor>c * 32767\<rfloor> - c\<bar> < 2 / 32768"
proof -
  let ?k = "\<lfloor>c * 32767\<rfloor>"
  from assms have t: "truncate_real (c * 32767) = ?k"
    by (simp add: truncate_real_def mult_less_0_iff)
  from assms(1) have "0 \<le> c * 32767" by simp
  then have lo: "0 \<le> ?k" by simp
  from assms(2) have "c * 32767 \<le> 32767" by simp
  then have hi: "?k \<le> 32767" by (simp add: floor_le_iff)
  from lo hi show "sint (of_int (truncate_real (c * 32767)) :: 16 word) = ?k"
    unfolding t by (intro sint_int16) simp_all
  have a: "real_of_int ?k \<le> c * 32767" and b: "c * 32767 < real_of_int ?k + 1"
    by linarith+
  from a have a': "real_of_int ?k / 32767 \<le> c" by simp
  from b have b': "c < real_of_int ?k / 32767 + 1 / 32767" by (simp add: field_simps)
  from lo a' b' show "\<bar>dequantize ?k - c\<bar> < 1 / 32767"
    by (simp add: dequantize_def abs_less_iff)
  from lo have "real_of_int ?k / 32768 \<le> real_of_int ?k / 32767"
    by (simp add: field_simps)
  with a' have u: "real_of_int ?k / 32768 \<le> c" by linarith
  from b assms(2) have "c * 32768 < real_of_int ?k + 2" by linarith
  then have "c < real_of_int ?k / 32768 + 2 / 32768" by (simp add: field_simps)
  with u show "\<bar>dequantize_32768 ?k - c\<bar> < 2 / 32768"
    by (simp add: dequantize_32768_def abs_less_iff)
qed

section \<open>Transcription without a result\<close>

text \<open>
  C5.  When the transcription of an audio frame is empty or null, the server sends the
  status \<open>Processing....\<close> and then the status \<open>Idle\<close> and nothing else (no text frame, no
  audio frame), the turn history is unchanged, and the turn is over: no event of the
  pipeline is enabled afterwards.
\<close>

theorem empty_transcription_aborts_turn:
  "ai_whisper e a = WhisperResult None \<or> ai_whisper e a = WhisperResult (Some '''') \<Longrightarrow>
   ws (handleAudioInput e s a) = ws s @ [status_msg ''Processing....'', status_msg ''Idle''] \<and>
   msgHistory (handleAudioInput e s a) = msgHistory s \<and>
   phase (handleAudioInput e s a) = Returned \<and>
   ttsQueue (handleAudioInput e s a) = ttsQueue s \<and>
   step e StreamNext (handleAudioInput e s a) = None"
  by (auto simp: handleAudioInput_def transcribeAudio_def transcribeAudio_try_def send_def
        step_def)

theorem empty_transcription_aborts_turn_witness:
  "ws (handleAudioInput
         \<lparr>ai_whisper = (\<lambda>a. WhisperResult None), ai_chat = (\<lambda>h. ([''Hi.''], None)),
          ai_tts = (\<lambda>k t. TtsString ''QUJD'')\<rparr>
         \<lparr>msgHistory = [], ws = [status_msg ''ready''], phase = Returned, textStream = [],
          streamEnd = None, fullResponse = [], unitCount = 0, ttsQueue = new_pqueue 1\<rparr>
         [0, 0, 0, 0])
   = [status_msg ''ready'', status_msg ''Processing....'', status_msg ''Idle'']"
  using empty_transcription_aborts_turn
    [of "\<lparr>ai_whisper = (\<lambda>a. WhisperResult None), ai_chat = (\<lambda>h. ([''Hi.''], None)),
          ai_tts = (\<lambda>k t. TtsString ''QUJD'')\<rparr>" "[0, 0, 0, 0]"
        "\<lparr>msgHistory = [], ws = [status_msg ''ready''], phase = Returned, textStream = [],
          streamEnd = None, fullResponse = [], unitCount = 0, ttsQueue = new_pqueue 1\<rparr>"]
  by simp

section \<open>Transcription that raises\<close>

text \<open>
  C10.  \<open>transcribeAudio\<close> never lets an exception pass: a failure of the transcription
  capability becomes the null result.  The turn of a raising transcription is then the turn
  of an empty transcription: the statuses \<open>Processing....\<close> and \<open>Idle\<close>, no error frame,
  the turn history unchanged.
\<close>

theorem raising_transcription_is_silent:
  "transcribeAudio (WhisperRaises x) = None \<and>
   (ai_whisper e a = WhisperRaises x \<longrightarrow>
      ws (handleAudioInput e s a) = ws s @ [status_msg ''Processing....'', status_msg ''Idle''] \<and>
      msgHistory (handleAudioInput e s a) = msgHistory s \<and>
      phase (handleAudioInput e s a) = Returned \<and>
      (\<forall>m \<in> set (ws (handleAudioInput e s a)) - set (ws s). mtype m \<noteq> ''error'') \<and>
      handleAudioInput e s a =
        handleAudioInput (e\<lparr>ai_whisper := (\<lambda>b. WhisperResult None)\<rparr>) s a)"
  by (auto simp: handleAudioInput_def transcribeAudio_def transcribeAudio_try_def send_def
        status_msg_def)

theorem raising_transcription_is_silent_witness:
  "ws (handleAudioInput
         \<lparr>ai_whisper = (\<lambda>a. WhisperRaises (JsError ''model unavailable'')),
          ai_chat = (\<lambda>h. ([''Hi.''], None)), ai_tts = (\<lambda>k t. TtsString ''QUJD'')\<rparr>
         \<lparr>msgHistory = [], ws = [], phase = Returned, textStream = [],
          streamEnd = None, fullResponse = [], unitCount = 0, ttsQueue = new_pqueue 1\<rparr>
         [1, 2])
   = [status_msg ''Processing....'', status_msg ''Idle'']"
proof -
  let ?e = "\<lparr>ai_whisper = (\<lambda>a. WhisperRaises (JsError ''model unavailable'')),
             ai_chat = (\<lambda>h. ([''Hi.''], None)), ai_tts = (\<lambda>k t. TtsString ''QUJD'')\<rparr>"
  let ?s = "\<lparr>msgHistory = [], ws = [], phase = Returned, textStream = [],
             streamEnd = None, fullResponse = [], unitCount = 0, ttsQueue = new_pqueue 1\<rparr>"
  have h: "ai_whisper ?e [1, 2] = WhisperRaises (JsError ''model unavailable'')"
    by simp
  from raising_transcription_is_silent [of "JsError ''model unavailable''" ?e "[1, 2]" ?s] h
  have "ws (handleAudioInput ?e ?s [1, 2]) = ws ?s @ [status_msg ''Processing....'', status_msg ''Idle'']"
    by blast
  then show ?thesis by simp
qed

section \<open>Order of the speech chunks\<close>

text \<open>
  C1.  In a turn whose completion stream yields the sentence units \<open>units_from 0 chunks\<close>
  (numbered 0, 1, 2, ... in the order of production), and for every schedule of the
  events of the turn (every latency of every synthesis call), the audio frames sent so far
  are the speech chunks of the first \<open>n\<close> units, in the order of the units; when the turn
  is over they are the chunks of all units.  At most one synthesis task is running at any
  time, so the synthesis calls settle in the order of production.  A schedule that ends the
  turn exists.  The statement holds for every number of units, one or more or none.
\<close>

theorem speech_chunks_in_production_order:
  assumes tr: "transcribeAudio (ai_whisper e a) = Some tr"
    and chat: "ai_chat e (msgHistory s @ [\<lparr>role = User, content = tr\<rparr>]) = (chunks, ending)"
    and run: "exec e sched (handleAudioInput e s a) = Some s'"
  shows "length (running (ttsQueue s')) \<le> 1 \<and>
         map fst (units_from 0 chunks) = [0..<length (units_from 0 chunks)] \<and>
         (\<exists>n. n \<le> length (units_from 0 chunks) \<and>
              audio_frames (ws s') =
                audio_frames (ws s) @ concat (map (frames_of e) (take n (units_from 0 chunks))) \<and>
              (turn_over s' \<longrightarrow> n = length (units_from 0 chunks))) \<and>
         (\<exists>sched' s''. exec e sched' (handleAudioInput e s a) = Some s'' \<and> turn_over s'')"
proof -
  have 1: "length (running (ttsQueue s')) \<le> 1"
    using turn_run(1) [OF tr chat run] by (simp add: queue_ok_def)
  have 2: "map fst (units_from 0 chunks) = [0..<length (units_from 0 chunks)]"
    using units_from_fst [of 0 chunks] by simp
  from 1 2 turn_run_audio [OF tr chat run] turn_can_finish [OF tr chat] show ?thesis
    by blast
qed

theorem speech_chunks_in_production_order_witness:
  "map_option (\<lambda>s'. audio_frames (ws s'))
     (exec (demo_env (demo_chunks, None) demo_tts) demo_sched
        (handleAudioInput (demo_env (demo_chunks, None) demo_tts) demo_server [0, 0]))
   = Some [audio_msg ''Hello there.'' ''QQ=='', audio_msg ''Bye.'' ''Qg=='']"
proof -
  let ?e = "demo_env (demo_chunks, None) demo_tts"
  have h1: "transcribeAudio (ai_whisper ?e [0, 0]) = Some ''hi''"
    by code_simp
  have h2: "ai_chat ?e (msgHistory demo_server @ [\<lparr>role = User, content = ''hi''\<rparr>]) = (demo_chunks, None)"
    by (simp add: demo_env_def)
  have "exec ?e demo_sched (handleAudioInput ?e demo_server [0, 0]) \<noteq> None"
    by code_simp
  then obtain s' where h3: "exec ?e demo_sched (handleAudioInput ?e demo_server [0, 0]) = Some s'"
    by auto
  have "map_option turn_over (exec ?e demo_sched (handleAudioInput ?e demo_server [0, 0])) = Some True"
    by code_simp
  with h3 have over: "turn_over s'" by simp
  from speech_chunks_in_production_order [OF h1 h2 h3] over
  have "audio_frames (ws s') =
        audio_frames (ws demo_server) @ concat (map (frames_of ?e) (units_from 0 demo_chunks))"
    by auto
  moreover have "audio_frames (ws demo_server) = []"
    by code_simp
  moreover have "concat (map (frames_of ?e) (units_from 0 demo_chunks)) =
                 [audio_msg ''Hello there.'' ''QQ=='', audio_msg ''Bye.'' ''Qg=='']"
    by code_simp
  ultimately show ?thesis using h3 by simp
qed

section \<open>Frames on the client\<close>

text \<open>
  C2.  The claim says that a transcript frame (type \<open>text\<close>) appends one user entry and
  touches neither the playback queue nor the playback.  The code does more: the case
  \<open>text\<close> of the handler has no \<open>break\<close>, so the case \<open>audio\<close> runs as well.  Every
  transcript frame appends a user entry and then an assistant entry with the same text,
  and puts an item without audio into the playback queue: while a chunk is playing the
  item stays in the queue, as the run below shows.
\<close>

theorem text_frame_falls_through_to_audio_case:
  "messages (onmessage (text_msg t) s) =
     messages s @ [\<lparr>role = User, content = t\<rparr>, \<lparr>role = Assistant, content = t\<rparr>] \<and>
   map_option (\<lambda>s'. (messages s', audioQueue s'))
     (crun [WsMessage (Some (audio_msg ''Hi.'' ''QUJD'')), PlayResolved 0,
            WsMessage (Some (text_msg ''hello''))] new_client) =
   Some ([\<lparr>role = Assistant, content = ''Hi.''\<rparr>, \<lparr>role = User, content = ''hello''\<rparr>,
          \<lparr>role = Assistant, content = ''hello''\<rparr>],
         [(None, ''hello'')])"
proof
  show "messages (onmessage (text_msg t) s) =
     messages s @ [\<lparr>role = User, content = t\<rparr>, \<lparr>role = Assistant, content = t\<rparr>]"
    by (simp add: onmessage_def text_msg_def case_audio_def playNextInQueue_messages)
  show "map_option (\<lambda>s'. (messages s', audioQueue s'))
     (crun [WsMessage (Some (audio_msg ''Hi.'' ''QUJD'')), PlayResolved 0,
            WsMessage (Some (text_msg ''hello''))] new_client) =
   Some ([\<lparr>role = Assistant, content = ''Hi.''\<rparr>, \<lparr>role = User, content = ''hello''\<rparr>,
          \<lparr>role = Assistant, content = ''hello''\<rparr>],
         [(None, ''hello'')])"
    by code_simp
qed

section \<open>The assistant turn\<close>

text \<open>
  C3.  When the completion stream ends normally, every run of the turn that reaches the
  point where the stream has ended and the queue of synthesis tasks is idle has appended
  exactly one assistant turn to the history (after the user turn), whose content is the
  texts of the sentence units joined by single spaces, and the last frame sent is the
  status \<open>Idle\<close>.  Before that point the history holds the user turn only.  Such a run
  exists.
\<close>

theorem assistant_turn_committed_after_drain:
  assumes tr: "transcribeAudio (ai_whisper e a) = Some tr"
    and chat: "ai_chat e (msgHistory s @ [\<lparr>role = User, content = tr\<rparr>]) = (chunks, None)"
  shows "(\<exists>sched s'. exec e sched (handleAudioInput e s a) = Some s' \<and> turn_over s') \<and>
         (\<forall>sched s'. exec e sched (handleAudioInput e s a) = Some s' \<longrightarrow>
            (if turn_over s'
             then msgHistory s' =
                    msgHistory s @
                    [\<lparr>role = User, content = tr\<rparr>,
                     \<lparr>role = Assistant, content = join_space (map snd (units_from 0 chunks))\<rparr>] \<and>
                  ws s' \<noteq> [] \<and> last (ws s') = status_msg ''Idle''
             else msgHistory s' = msgHistory s @ [\<lparr>role = User, content = tr\<rparr>]))"
proof (intro conjI allI impI)
  show "\<exists>sched s'. exec e sched (handleAudioInput e s a) = Some s' \<and> turn_over s'"
    by (rule turn_can_finish [OF tr chat])
next
  fix sched s'
  assume run: "exec e sched (handleAudioInput e s a) = Some s'"
  note ph = turn_run_phase [OF tr chat run]
  show "if turn_over s'
        then msgHistory s' =
               msgHistory s @
               [\<lparr>role = User, content = tr\<rparr>,
                \<lparr>role = Assistant, content = join_space (map snd (units_from 0 chunks))\<rparr>] \<and>
             ws s' \<noteq> [] \<and> last (ws s') = status_msg ''Idle''
        else msgHistory s' = msgHistory s @ [\<lparr>role = User, content = tr\<rparr>]"
  proof (cases "turn_over s'")
    case True
    with ph(1,2) have ret: "phase s' = Returned"
      by (cases "phase s'") (auto simp: turn_over_def phase_ok_def)
    with ph(1) have "textStream s' = []" by (simp add: phase_ok_def)
    with ph(3) have "fullResponse s' = join_space (map snd (units_from 0 chunks))"
      by (simp add: response_total_def)
    with True ret ph(4) ph(5) show ?thesis by simp
  next
    case False
    with ph(1) have "phase s' \<noteq> Returned"
      by (auto simp: turn_over_def phase_ok_def)
    with False ph(4) show ?thesis by simp
  qed
qed

theorem assistant_turn_committed_after_drain_witness:
  "map_option msgHistory
     (exec (demo_env (demo_chunks, None) demo_tts) demo_sched
        (handleAudioInput (demo_env (demo_chunks, None) demo_tts) demo_server [0, 0]))
   = Some [\<lparr>role = User, content = ''hi''\<rparr>,
           \<lparr>role = Assistant, content = ''Hello there. How can I help? Bye.''\<rparr>]"
proof -
  let ?e = "demo_env (demo_chunks, None) demo_tts"
  have h1: "transcribeAudio (ai_whisper ?e [0, 0]) = Some ''hi''"
    by code_simp
  have h2: "ai_chat ?e (msgHistory demo_server @ [\<lparr>role = User, content = ''hi''\<rparr>]) = (demo_chunks, None)"
    by (simp add: demo_env_def)
  have "exec ?e demo_sched (handleAudioInput ?e demo_server [0, 0]) \<noteq> None"
    by code_simp
  then obtain s' where h3: "exec ?e demo_sched (handleAudioInput ?e demo_server [0, 0]) = Some s'"
    by auto
  have "map_option turn_over (exec ?e demo_sched (handleAudioInput ?e demo_server [0, 0])) = Some True"
    by code_simp
  with h3 have over: "turn_over s'" by simp
  from assistant_turn_committed_after_drain [OF h1 h2] h3 over
  have "msgHistory s' =
          msgHistory demo_server @
          [\<lparr>role = User, content = ''hi''\<rparr>,
           \<lparr>role = Assistant, content = join_space (map snd (units_from 0 demo_chunks))\<rparr>]"
    by metis
  moreover have "msgHistory demo_server = []"
    by (simp add: demo_server_def)
  moreover have "join_space (map snd (units_from 0 demo_chunks)) = ''Hello there. How can I help? Bye.''"
    by code_simp
  ultimately show ?thesis using h3 by simp
qed

section \<open>A completion stream that fails\<close>



section \<open>Synthesis that fails\<close>



section \<open>The playback queue of the client\<close>

text \<open>
  C7.  The claim says that every completion of a playback, by its normal end or by an
  error, releases the item's resources and starts the next item.  The handlers of \<open>ended\<close>
  and \<open>error\<close> do so (\<open>revokeUrl\<close>); the \<open>catch\<close> that runs when \<open>play()\<close> is rejected
  starts the next item and does not revoke the object URL.  In the run below three chunks
  arrive and the playback of the first is rejected: the first element is finished, the
  second item has started, and the object URL of the first element is still live.
\<close>

theorem rejected_play_keeps_object_url:
  "map_option (\<lambda>s'. (elements s', objectUrls s', audioQueue s'))
     (crun [WsMessage (Some (audio_msg ''A'' ''QUJD'')), WsMessage (Some (audio_msg ''B'' ''QUJD'')),
            WsMessage (Some (audio_msg ''C'' ''QUJD'')), PlayRejected 0] new_client) =
   Some ([Finished, Starting], [0, 1], [(Some ''QUJD'', ''C'')])"
  by code_simp

text \<open>
  When the element fires \<open>error\<close> before \<open>play()\<close> settles, both the handler of \<open>error\<close>
  and the \<open>catch\<close> run for the same item, each starting a further item: two elements are
  audible at once.
\<close>

lemma failure_handled_twice_overlaps:
  "map_option audible
     (crun [WsMessage (Some (audio_msg ''A'' ''QUJD'')), WsMessage (Some (audio_msg ''B'' ''QUJD'')),
            WsMessage (Some (audio_msg ''C'' ''QUJD'')), AudioError 0, PlayResolved 1,
            PlayRejected 0, PlayResolved 2] new_client) =
   Some [1, 2]"
  by code_simp

section \<open>Round trip through the WAV container\<close>

text \<open>
  C8.  For every list of samples and every sample rate, the encoded container reads back:
  its header has the fields of the canonical layout (the sizes of the file and of the data,
  format code 1, one channel, the sample rate, a byte rate of twice the sample rate, block
  align 2 and 16 bits per sample), and it holds one signed 16-bit value per sample.  For a
  finite sample the stored value is the sample clamped to [-1, 1] and scaled by 32768 when
  it is negative and by 32767 otherwise, truncated towards zero; dividing the stored value
  by the factor it was scaled with gives the clamped sample with an error below 1/32767,
  and dividing it by 32768 gives the clamped sample with an error below 2/32768.
  \<open>+Infinity\<close> is stored as 32767, \<open>-Infinity\<close> as -32768 and NaN as 0.
\<close>

theorem wav_round_trip_of_samples:
  "\<exists>w. parseWav (encodeWavPCM16 samples sampleRate) = Some w \<and>
       riffSize w = of_nat (36 + 2 * length samples) \<and> fmtSize w = 16 \<and> audioFormat w = 1 \<and>
       channelCount w = 1 \<and> rate w = of_nat sampleRate \<and>
       bytesPerSecond w = of_nat (sampleRate * 2) \<and> frameSize w = 2 \<and> sampleBits w = 16 \<and>
       dataBytes w = of_nat (2 * length samples) \<and>
       length (pcm w) = length samples \<and>
       (\<forall>i < length samples.
          case samples ! i of
            Num r \<Rightarrow>
              pcm w ! i = (if max (- 1) (min 1 r) < 0 then \<lceil>max (- 1) (min 1 r) * 32768\<rceil>
                           else \<lfloor>max (- 1) (min 1 r) * 32767\<rfloor>) \<and>
              \<bar>dequantize (pcm w ! i) - max (- 1) (min 1 r)\<bar> < 1 / 32767 \<and>
              \<bar>dequantize_32768 (pcm w ! i) - max (- 1) (min 1 r)\<bar> < 2 / 32768
          | PosInf \<Rightarrow> pcm w ! i = 32767
          | NegInf \<Rightarrow> pcm w ! i = - 32768
          | NaN \<Rightarrow> pcm w ! i = 0)"
proof -
  let ?w = "\<lparr>riffSize = of_nat (36 + 2 * length samples), fmtSize = 16, audioFormat = 1,
            channelCount = 1, rate = of_nat sampleRate, bytesPerSecond = of_nat (sampleRate * 2),
            frameSize = 2, sampleBits = 16, dataBytes = of_nat (2 * length samples),
            pcm = map (\<lambda>x. sint (toInt16 (pcmSample x))) samples\<rparr>"
  have p: "parseWav (encodeWavPCM16 samples sampleRate) = Some ?w"
    by (simp add: parse_encode getInt16s_setInt16)
  have s: "case x of
            Num r \<Rightarrow>
              sint (toInt16 (pcmSample x)) =
                (if max (- 1) (min 1 r) < 0 then \<lceil>max (- 1) (min 1 r) * 32768\<rceil>
                 else \<lfloor>max (- 1) (min 1 r) * 32767\<rfloor>) \<and>
              \<bar>dequantize (sint (toInt16 (pcmSample x))) - max (- 1) (min 1 r)\<bar> < 1 / 32767 \<and>
              \<bar>dequantize_32768 (sint (toInt16 (pcmSample x))) - max (- 1) (min 1 r)\<bar> < 2 / 32768
          | PosInf \<Rightarrow> sint (toInt16 (pcmSample x)) = 32767
          | NegInf \<Rightarrow> sint (toInt16 (pcmSample x)) = - 32768
          | NaN \<Rightarrow> sint (toInt16 (pcmSample x)) = 0" for x
  proof (cases x)
    case (Num r)
    let ?c = "max (- 1) (min 1 r)"
    have c: "- 1 \<le> ?c" "?c \<le> 1" by simp_all
    show ?thesis
    proof (cases "?c < 0")
      case True
      from stored_negative [OF c(1) True] True show ?thesis
        unfolding Num pcmSample_Num toInt16_def by (simp only: number.case if_True simp_thms)
    next
      case False
      then have "0 \<le> ?c" by simp
      from stored_nonnegative [OF this c(2)] False show ?thesis
        unfolding Num pcmSample_Num toInt16_def by (simp only: number.case if_False simp_thms)
    qed
  next
    case PosInf
    then show ?thesis
      by (simp add: pcmSample_others toInt16_def truncate_real_def sint_int16)
  next
    case NegInf
    then show ?thesis
      by (simp add: pcmSample_others toInt16_def truncate_real_def sint_int16)
  next
    case NaN
    then show ?thesis by (simp add: pcmSample_others toInt16_def)
  qed
  have "\<forall>i < length samples.
          case samples ! i of
            Num r \<Rightarrow>
              pcm ?w ! i = (if max (- 1) (min 1 r) < 0 then \<lceil>max (- 1) (min 1 r) * 32768\<rceil>
                           else \<lfloor>max (- 1) (min 1 r) * 32767\<rfloor>) \<and>
              \<bar>dequantize (pcm ?w ! i) - max (- 1) (min 1 r)\<bar> < 1 / 32767 \<and>
              \<bar>dequantize_32768 (pcm ?w ! i) - max (- 1) (min 1 r)\<bar> < 2 / 32768
          | PosInf \<Rightarrow> pcm ?w ! i = 32767
          | NegInf \<Rightarrow> pcm ?w ! i = - 32768
          | NaN \<Rightarrow> pcm ?w ! i = 0"
  proof (intro allI impI)
    fix i assume "i < length samples"
    then have "pcm ?w ! i = sint (toInt16 (pcmSample (samples ! i)))" by simp
    with s [of "samples ! i"] show "case samples ! i of
            Num r \<Rightarrow>
              pcm ?w ! i = (if max (- 1) (min 1 r) < 0 then \<lceil>max (- 1) (min 1 r) * 32768\<rceil>
                           else \<lfloor>max (- 1) (min 1 r) * 32767\<rfloor>) \<and>
              \<bar>dequantize (pcm ?w ! i) - max (- 1) (min 1 r)\<bar> < 1 / 32767 \<and>
              \<bar>dequantize_32768 (pcm ?w ! i) - max (- 1) (min 1 r)\<bar> < 2 / 32768
          | PosInf \<Rightarrow> pcm ?w ! i = 32767
          | NegInf \<Rightarrow> pcm ?w ! i = - 32768
          | NaN \<Rightarrow> pcm ?w ! i = 0"
      by (simp only:)
  qed
  with p show ?thesis
    by (intro exI [of _ ?w]) simp
qed

theorem wav_round_trip_of_samples_witness:
  "map_option (\<lambda>w. (audioFormat w, channelCount w, rate w, sampleBits w, dataBytes w, pcm w))
     (parseWav (encodeWavPCM16 [Num (1 / 2), Num (- 1 / 4), Num 2, NegInf, NaN] 16000)) =
   Some (1, 1, 16000, 16, 10, [16383, - 8192, 32767, - 32768, 0])"
proof -
  let ?xs = "[Num (1 / 2), Num (- 1 / 4), Num 2, NegInf, NaN]"
  from wav_round_trip_of_samples [of ?xs 16000] obtain w where
    p: "parseWav (encodeWavPCM16 ?xs 16000) = Some w" and
    h: "audioFormat w = 1" "channelCount w = 1" "rate w = of_nat 16000" "sampleBits w = 16"
       "dataBytes w = of_nat (2 * length ?xs)" and
    l: "length (pcm w) = length ?xs" and
    a: "\<forall>i < length ?xs.
          case ?xs ! i of
            Num r \<Rightarrow>
              pcm w ! i = (if max (- 1) (min 1 r) < 0 then \<lceil>max (- 1) (min 1 r) * 32768\<rceil>
                           else \<lfloor>max (- 1) (min 1 r) * 32767\<rfloor>) \<and>
              \<bar>dequantize (pcm w ! i) - max (- 1) (min 1 r)\<bar> < 1 / 32767 \<and>
              \<bar>dequantize_32768 (pcm w ! i) - max (- 1) (min 1 r)\<bar> < 2 / 32768
          | PosInf \<Rightarrow> pcm w ! i = 32767
          | NegInf \<Rightarrow> pcm w ! i = - 32768
          | NaN \<Rightarrow> pcm w ! i = 0"
    by blast
  have f: "\<lfloor>(1 / 2 :: real) * 32767\<rfloor> = 16383" "\<lceil>(- 1 / 4 :: real) * 32768\<rceil> = - 8192"
    by simp_all
  from a [rule_format, of 0] f have 0: "pcm w ! 0 = 16383" by simp
  from a [rule_format, of 1] f have 1: "pcm w ! 1 = - 8192" by simp
  from a [rule_format, of 2] have 2: "pcm w ! 2 = 32767" by simp
  from a [rule_format, of 3] have 3: "pcm w ! 3 = - 32768" by simp
  from a [rule_format, of 4] have 4: "pcm w ! 4 = 0" by simp
  from l obtain a0 a1 a2 a3 a4 where e: "pcm w = [a0, a1, a2, a3, a4]"
    by (auto simp: length_Suc_conv eval_nat_numeral)
  from 0 1 2 3 4 have "pcm w = [16383, - 8192, 32767, - 32768, 0]"
    unfolding e by simp
  with p h show ?thesis by simp
qed

text \<open>
  The round trip does not reproduce every clamped sample to within 1/32767.  The clamp of
  NaN is NaN, which is stored as 0, and no decoded value is within a distance of NaN.  The
  sample 65535/65536 is stored as 32766, and 32766/32768 differs from it by more than
  1/32767.
\<close>

theorem wav_round_trip_counterexample:
  "map_option pcm (parseWav (encodeWavPCM16 [NaN] 16000)) = Some [0] \<and>
   math_max (- 1) (math_min 1 NaN) = NaN \<and>
   \<not> reproduces (dequantize 0) (math_max (- 1) (math_min 1 NaN)) \<and>
   \<not> reproduces (dequantize_32768 0) (math_max (- 1) (math_min 1 NaN)) \<and>
   map_option pcm (parseWav (encodeWavPCM16 [Num (65535 / 65536)] 16000)) = Some [32766] \<and>
   math_max (- 1) (math_min 1 (Num (65535 / 65536))) = Num (65535 / 65536) \<and>
   \<not> reproduces (dequantize_32768 32766) (math_max (- 1) (math_min 1 (Num (65535 / 65536))))"
proof -
  have e: "map_option pcm (parseWav (encodeWavPCM16 xs 16000)) =
             Some (map (\<lambda>x. sint (toInt16 (pcmSample x))) xs)" for xs
    by (simp add: parse_encode getInt16s_setInt16)
  have 1: "map_option pcm (parseWav (encodeWavPCM16 [NaN] 16000)) = Some [0]"
    by (simp add: e pcmSample_others toInt16_def)
  have 2: "math_max (- 1) (math_min 1 NaN) = NaN"
    by (simp add: math_max_def math_min_def)
  have f: "\<lfloor>(65535 / 65536 :: real) * 32767\<rfloor> = 32766"
    by simp
  have "pcmSample (Num (65535 / 65536)) = Num (65535 / 65536 * 32767)"
    by (simp add: pcmSample_Num)
  moreover have "sint (of_int (truncate_real (65535 / 65536 * 32767)) :: 16 word) = 32766"
    using stored_nonnegative(1) [of "65535 / 65536"] f by simp
  ultimately have 3: "map_option pcm (parseWav (encodeWavPCM16 [Num (65535 / 65536)] 16000)) = Some [32766]"
    by (simp add: e toInt16_def)
  have 4: "math_max (- 1) (math_min 1 (Num (65535 / 65536))) = Num (65535 / 65536)"
    by (simp add: math_max_def math_min_def)
  have 5: "\<not> reproduces (dequantize_32768 32766) (Num (65535 / 65536))"
    by (simp add: reproduces_def dequantize_32768_def)
  have 6: "\<not> reproduces d NaN" for d
    by (simp add: reproduces_def)
  from 1 2 3 4 5 6 show ?thesis by simp
qed

section \<open>The audio classifier\<close>

text \<open>
  C9.  \<open>sniffAudioMime\<close> returns \<open>audio/wav\<close> or \<open>audio/mpeg\<close> and nothing else.  It
  returns \<open>audio/wav\<close> for every input shorter than 20 characters, and for a longer input
  it depends on the first 20 characters only (the first 15 bytes of the payload).  For the
  base64 text of a payload \<open>p\<close>: a payload that starts with \<open>RIFF\<close> and has \<open>WAVE\<close> at
  offset 8 gives \<open>audio/wav\<close>; a payload of at least 13 bytes (20 characters of base64)
  whose first byte is 0xFF and whose second byte has its top three bits set gives
  \<open>audio/mpeg\<close>; any other payload, and any payload of fewer than 13 bytes, gives
  \<open>audio/wav\<close>.
\<close>

theorem sniffAudioMime_classifies:
  "(sniffAudioMime s = ''audio/wav'' \<or> sniffAudioMime s = ''audio/mpeg'') \<and>
   (length s < 20 \<longrightarrow> sniffAudioMime s = ''audio/wav'') \<and>
   (20 \<le> length s \<longrightarrow> sniffAudioMime s = sniffAudioMime (take 20 s)) \<and>
   (startsWith p ''RIFF'' \<and> startsWith (drop 8 p) ''WAVE'' \<longrightarrow>
      sniffAudioMime (btoa p) = ''audio/wav'') \<and>
   (13 \<le> length p \<and> charCodeAt p 0 = Some 255 \<and>
    (\<exists>c. charCodeAt p 1 = Some c \<and> c AND 224 = 224) \<longrightarrow>
      sniffAudioMime (btoa p) = ''audio/mpeg'') \<and>
   (\<not> (charCodeAt p 0 = Some 255 \<and> (\<exists>c. charCodeAt p 1 = Some c \<and> c AND 224 = 224)) \<longrightarrow>
      sniffAudioMime (btoa p) = ''audio/wav'') \<and>
   (length p < 13 \<longrightarrow> sniffAudioMime (btoa p) = ''audio/wav'')"
proof (intro conjI impI)
  show "sniffAudioMime s = ''audio/wav'' \<or> sniffAudioMime s = ''audio/mpeg''"
    by (rule sniffAudioMime_range)
  show "length s < 20 \<Longrightarrow> sniffAudioMime s = ''audio/wav''"
    by (rule sniffAudioMime_short)
  show "20 \<le> length s \<Longrightarrow> sniffAudioMime s = sniffAudioMime (take 20 s)"
    by (rule sniffAudioMime_head)
next
  assume "startsWith p ''RIFF'' \<and> startsWith (drop 8 p) ''WAVE''"
  then have "charCodeAt p 0 = Some 82" by (simp add: startsWith_RIFF_code)
  then show "sniffAudioMime (btoa p) = ''audio/wav''"
    by (simp add: sniffAudioMime_btoa)
next
  assume "13 \<le> length p \<and> charCodeAt p 0 = Some 255 \<and>
    (\<exists>c. charCodeAt p 1 = Some c \<and> c AND 224 = 224)"
  then show "sniffAudioMime (btoa p) = ''audio/mpeg''"
    by (auto simp: sniffAudioMime_btoa)
next
  assume "\<not> (charCodeAt p 0 = Some 255 \<and> (\<exists>c. charCodeAt p 1 = Some c \<and> c AND 224 = 224))"
  then show "sniffAudioMime (btoa p) = ''audio/wav''"
    by (auto simp: sniffAudioMime_btoa split: option.splits)
next
  assume "length p < 13"
  then show "sniffAudioMime (btoa p) = ''audio/wav''"
    by (simp add: sniffAudioMime_btoa)
qed


theorem sniffAudioMime_classifies_witness:
  "sniffAudioMime ''UklGRiQAAABXQVZFZm10IA=='' = ''audio/wav'' \<and>
   sniffAudioMime ''//uQAAAAAAAAAAAAAAAA'' = ''audio/mpeg'' \<and>
   sniffAudioMime ''//uQ'' = ''audio/wav''"
proof -
  let ?wav = "''RIFF'' @ [CHR 0x24, CHR 0x00, CHR 0x00, CHR 0x00] @ ''WAVEfmt ''"
  let ?mp3 = "[CHR 0xFF, CHR 0xFB, CHR 0x90] @ replicate 12 (CHR 0x00)"
  let ?short = "[CHR 0xFF, CHR 0xFB, CHR 0x90]"
  have b: "btoa ?wav = ''UklGRiQAAABXQVZFZm10IA==''" "btoa ?mp3 = ''//uQAAAAAAAAAAAAAAAA''"
    "btoa ?short = ''//uQ''"
    by code_simp+
  have h1: "startsWith ?wav ''RIFF'' \<and> startsWith (drop 8 ?wav) ''WAVE''"
    by simp
  have h2: "13 \<le> length ?mp3 \<and> charCodeAt ?mp3 0 = Some 255 \<and>
            (\<exists>c. charCodeAt ?mp3 1 = Some c \<and> c AND 224 = 224)"
    by (simp add: charCodeAt_def)
  have h3: "length ?short < 13"
    by simp
  from sniffAudioMime_classifies [where p = ?wav] h1
  have "sniffAudioMime (btoa ?wav) = ''audio/wav''" by blast
  moreover from sniffAudioMime_classifies [where p = ?mp3] h2
  have "sniffAudioMime (btoa ?mp3) = ''audio/mpeg''" by blast
  moreover from sniffAudioMime_classifies [where p = ?short] h3
  have "sniffAudioMime (btoa ?short) = ''audio/wav''" by blast
  ultimately show ?thesis by (simp only: b)
qed

end
